theory Spec2Isabelle
  imports Main "HOL-Library.AList"
begin

section \<open>Text and numbers\<close>

text \<open>
  A JavaScript string is modelled as a \<^typ>\<open>string\<close>, one \<^typ>\<open>char\<close> per code unit; the
  model covers the code units below 256, which is where every character the
  encoder treats specially lives.

  \<open>toString\<close> of a non-negative integer (row numbers, entry counts, string ids) is
  its decimal numeral.
\<close>

fun nat_toString :: "nat \<Rightarrow> string" where
  "nat_toString n =
     (if n < 10 then [''0123456789'' ! n]
      else nat_toString (n div 10) @ [''0123456789'' ! (n mod 10)])"

declare nat_toString.simps [simp del]

definition int_toString :: "int \<Rightarrow> string" where
  "int_toString i = (if i < 0 then CHR ''-'' # nat_toString (nat (- i)) else nat_toString (nat i))"

section \<open>column.ts\<close>

text \<open>
  \<open>columnName\<close>: the loop \<open>while (index >= 0)\<close> with its two assignments, the
  accumulator \<open>column\<close> growing at the front.
\<close>

function columnName_loop :: "int \<Rightarrow> string \<Rightarrow> string" where
  "columnName_loop index column =
     (if index \<ge> 0
      then columnName_loop (index div 26 - 1) (char_of (65 + index mod 26) # column)
      else column)"
  by pat_completeness auto
termination
  by (relation "measure (\<lambda>(i, c). nat (i + 1))") auto

declare columnName_loop.simps [simp del]

definition columnName :: "int \<Rightarrow> string" where
  "columnName index = columnName_loop index []"

section \<open>utils.ts: escapeXML\<close>

text \<open>
  \<open>value.replace(/[\x00-\x1F\x7F]/g, '?').replace(/[&<>"'\\]/g, (char) => entities[char])\<close>.
  The table \<open>entities\<close> has five keys; \<open>String.prototype.replace\<close> turns the
  callback's result into a string, so a lookup that finds no key contributes the
  text \<open>undefined\<close>. The function is modelled on strings; a value of another
  type it returns as it is.
\<close>

definition entities :: "char \<rightharpoonup> string" where
  "entities =
     [CHR ''&'' \<mapsto> ''&amp;'',
      CHR ''<'' \<mapsto> ''&lt;'',
      CHR ''>'' \<mapsto> ''&gt;'',
      CHR 0x22 \<mapsto> ''&quot;'',
      CHR 0x27 \<mapsto> ''&apos;'']"

definition control :: "char \<Rightarrow> bool" where
  "control c = ((of_char c :: nat) \<le> 0x1F \<or> (of_char c :: nat) = 0x7F)"

definition special :: "char \<Rightarrow> bool" where
  "special c = (c \<in> set [CHR ''&'', CHR ''<'', CHR ''>'', CHR 0x22, CHR 0x27, CHR 0x5C])"

definition replace_control :: "string \<Rightarrow> string" where
  "replace_control value = map (\<lambda>c. if control c then CHR ''?'' else c) value"

definition replace_special :: "string \<Rightarrow> string" where
  "replace_special value =
     concat (map (\<lambda>c. if special c
                         then (case entities c of Some e \<Rightarrow> e | None \<Rightarrow> ''undefined'')
                         else [c]) value)"

definition escapeXML :: "string \<Rightarrow> string" where
  "escapeXML value = replace_special (replace_control value)"

section \<open>shared-strings.ts\<close>

record SharedStrings =
  strings :: "string list"
  stringIndexMap :: "string \<rightharpoonup> nat"
  strings_file :: string

definition new_SharedStrings :: "string \<Rightarrow> SharedStrings" where
  "new_SharedStrings path = \<lparr>strings = [], stringIndexMap = Map.empty, strings_file = path\<rparr>"

text \<open>\<open>add\<close> returns the id and the updated table; \<open>push\<close> returns the new length.\<close>

definition add :: "SharedStrings \<Rightarrow> string \<Rightarrow> nat \<times> SharedStrings" where
  "add this str =
     (case stringIndexMap this str of
        Some i \<Rightarrow> (i, this)
      | None \<Rightarrow>
          (let index = length (strings this @ [str]) - 1
           in (index, this\<lparr>strings := strings this @ [str],
                              stringIndexMap := (stringIndexMap this)(str \<mapsto> index)\<rparr>)))"

definition size_strings :: "SharedStrings \<Rightarrow> nat" where
  "size_strings this = length (strings this)"

definition destroy :: "SharedStrings \<Rightarrow> SharedStrings" where
  "destroy this = this\<lparr>strings := [], stringIndexMap := Map.empty\<rparr>"

text \<open>A sequence of \<open>add\<close> calls, with the ids they return in order.\<close>

fun add_all :: "SharedStrings \<Rightarrow> string list \<Rightarrow> nat list \<times> SharedStrings" where
  "add_all this [] = ([], this)"
| "add_all this (str # rest) =
     (let (i, this') = add this str;
          (ids, this'') = add_all this' rest
      in (i # ids, this''))"

text \<open>
  The table's representation invariant: the array holds each string once, and the
  index map sends exactly the strings of the array to their positions.
\<close>

definition table_ok :: "SharedStrings \<Rightarrow> bool" where
  "table_ok this =
     (distinct (strings this) \<and>
      (\<forall>str i. (stringIndexMap this str = Some i) =
                (i < length (strings this) \<and> strings this ! i = str)))"

text \<open>
  \<open>generateSharedStringsXML\<close>. The output channel is the list of the strings written,
  in order; one \<open>write(a, b, ...)\<close> call appends the joined text of its arguments. The
  function takes the batch size, which the source fixes at 5000. \<open>acc.length % 0\<close>
  is \<open>NaN\<close>, never \<open>0\<close>; \<^term>\<open>(Suc n) mod 0\<close> is \<^term>\<open>Suc n\<close>, never \<open>0\<close> either.
\<close>

definition sst_header :: "nat \<Rightarrow> string" where
  \<open>sst_header n =
     ''<?xml version="1.0" encoding="UTF-8" standalone="yes"?>'' @ [CHR 0x0A] @
     ''<sst xmlns="http://schemas.openxmlformats.org/spreadsheetml/2006/main"'' @ [CHR 0x0A] @
     ''            count="'' @ nat_toString n @ ''" uniqueCount="'' @ nat_toString n @ ''">''\<close>

definition si :: "string \<Rightarrow> string" where
  "si str = ''<si><t>'' @ escapeXML str @ ''</t></si>''"

fun sst_loop :: "nat \<Rightarrow> string list \<Rightarrow> string list \<Rightarrow> string list \<Rightarrow> string list \<times> string list" where
  "sst_loop batch [] acc out = (acc, out)"
| "sst_loop batch (str # rest) acc out =
     (let acc' = acc @ [si str]
      in if length acc' mod batch = 0
         then sst_loop batch rest [] (out @ [concat acc'])
         else sst_loop batch rest acc' out)"

definition generateSharedStringsXML_batch :: "nat \<Rightarrow> SharedStrings \<Rightarrow> string list" where
  "generateSharedStringsXML_batch batch this =
     (let out = [sst_header (length (strings this))];
          (acc, out') = sst_loop batch (strings this) [] out
      in out' @ [concat acc @ ''</sst>''])"

definition generateSharedStringsXML :: "SharedStrings \<Rightarrow> string list" where
  "generateSharedStringsXML = generateSharedStringsXML_batch 5000"

section \<open>sheet.ts\<close>

text \<open>
  A cell as \<open>writeChunk\<close> tells them apart: \<open>null\<close>, \<open>undefined\<close> (also what a hole
  of the row array reads as), a string, a number, a \<open>Date\<close>, another object and a
  value of any other type; the last two carry the text \<open>String(cell)\<close> gives.

  Numbers are IEEE doubles in the source. The model keeps them abstract: \<open>'n\<close> is the
  type of numbers, \<open>'d\<close> the type of dates, and the two operations the encoder applies
  to them are parameters: the text of a number in a template literal, and
  \<open>convertToExcelDate\<close> (imported as \<open>date\<close>), whose body is double arithmetic on a time
  stamp and an epoch taken from the process's time zone.
\<close>

datatype ('n, 'd) cell =
    CNull
  | CUndefined
  | CString string
  | CNumber 'n
  | CDate 'd
  | CObject string
  | COther string

record ('n, 'd) runtime =
  numberText :: "'n \<Rightarrow> string"
  convertToExcelDate :: "'d \<Rightarrow> 'n"

text \<open>
  An instance for worked examples: numbers are integers, printed as decimal
  numerals; a date is a midnight in UTC, given by its day count since 1970-01-01, in
  a process whose zone is UTC. There the source's formula is exact: the epoch is day
  \<open>-25569\<close>, every quotient is a whole number, and the serial is the day count since
  1899-12-30.
\<close>

definition utc_days :: "(int, int) runtime" where
  "utc_days = \<lparr>numberText = int_toString, convertToExcelDate = (\<lambda>days. days + 25569)\<rparr>"

text \<open>
  The sheet holds its string table by reference (\<open>sharedStrings\<close> is an address in
  the store of tables). Column indices are whole numbers.
\<close>

record ('n, 'd) Sheet =
  rows :: "('n, 'd) cell list list"
  sharedStrings :: nat
  sheet_file :: string
  columnWidths :: "(int \<times> 'n) list"

definition new_Sheet :: "nat \<Rightarrow> string \<Rightarrow> ('n, 'd) Sheet" where
  "new_Sheet ref path = \<lparr>rows = [], sharedStrings = ref, sheet_file = path, columnWidths = []\<rparr>"

definition CHUNK_SIZE :: nat where
  "CHUNK_SIZE = 2500"

definition COLUMNS :: "int \<rightharpoonup> string" where
  "COLUMNS = (\<lambda>i. if 0 \<le> i \<and> i < 702 then Some (columnName i) else None)"

definition mapper :: "('n, 'd) runtime \<Rightarrow> int \<times> 'n \<Rightarrow> string" where
  \<open>mapper rt = (\<lambda>(k, w).
     ''<col min="'' @ int_toString (k + 1) @ ''" max="'' @ int_toString (k + 1) @
     ''" width="'' @ numberText rt w @ ''" customWidth="1"/>'')\<close>

definition addRow :: "('n, 'd) cell list \<Rightarrow> ('n, 'd) Sheet \<Rightarrow> ('n, 'd) Sheet" where
  "addRow row this = this\<lparr>rows := rows this @ [row]\<rparr>"

definition addRows :: "('n, 'd) cell list list \<Rightarrow> ('n, 'd) Sheet \<Rightarrow> ('n, 'd) Sheet" where
  "addRows rs this = this\<lparr>rows := rows this @ rs\<rparr>"

definition rowsCount :: "('n, 'd) Sheet \<Rightarrow> nat" where
  "rowsCount this = length (rows this)"

text \<open>
  \<open>setColumWidth\<close> is called from untyped code too, so its arguments are modelled
  by what the function tests. The first argument is an array (\<open>Sizes\<close>), a number
  (\<open>Index\<close>) or anything else (\<open>NoIndex\<close>); the second is a number (\<open>Width\<close>) or
  anything else, \<open>undefined\<close> included (\<open>NoWidth\<close>). An element of the array is a
  pair of numbers, or a value that cannot be destructured because it is not
  iterable (\<open>null\<close>, \<open>undefined\<close>, and by the language's array patterns a number,
  a boolean or a plain object as well): there \<open>const [index, width] of ...\<close> throws
  a \<open>TypeError\<close>, after the pairs before it have been stored. Iterable elements of
  other shapes are outside the model.

  The width map is a JavaScript \<open>Map\<close>: \<open>set\<close> on a key it holds replaces the value
  in place, and a new key goes last.
\<close>

datatype 'n item = Entry int 'n | NotIterable

datatype 'n index_arg = Sizes "'n item list" | Index int | NoIndex

datatype 'n width_arg = Width 'n | NoWidth

datatype error = TypeError

fun set_sizes :: "'n item list \<Rightarrow> (int \<times> 'n) list \<Rightarrow> error option \<times> (int \<times> 'n) list" where
  "set_sizes [] widths = (None, widths)"
| "set_sizes (Entry index width # rest) widths = set_sizes rest (AList.update index width widths)"
| "set_sizes (NotIterable # rest) widths = (Some TypeError, widths)"

fun setColumWidth ::
  "'n index_arg \<Rightarrow> 'n width_arg \<Rightarrow> ('n, 'd) Sheet \<Rightarrow> error option \<times> ('n, 'd) Sheet" where
  "setColumWidth (Sizes sizes) width this =
     (let (e, widths) = set_sizes sizes (columnWidths this)
      in (e, this\<lparr>columnWidths := widths\<rparr>))"
| "setColumWidth (Index index) (Width width) this =
     (None, this\<lparr>columnWidths := AList.update index width (columnWidths this)\<rparr>)"
| "setColumWidth indexOrSizes width this = (None, this)"

text \<open>A sequence of calls; an exception ends it.\<close>

fun setColumWidth_calls ::
  "('n index_arg \<times> 'n width_arg) list \<Rightarrow> ('n, 'd) Sheet \<Rightarrow> error option \<times> ('n, 'd) Sheet" where
  "setColumWidth_calls [] this = (None, this)"
| "setColumWidth_calls ((a, w) # calls) this =
     (case setColumWidth a w this of
        (None, this') \<Rightarrow> setColumWidth_calls calls this'
      | (Some e, this') \<Rightarrow> (Some e, this'))"

text \<open>
  The pairs a call stores, in the order it stores them: those of the array up to
  the first element that cannot be destructured, the one pair of the two-number
  form, none otherwise.
\<close>

fun pairs_of :: "'n item list \<Rightarrow> (int \<times> 'n) list" where
  "pairs_of [] = []"
| "pairs_of (Entry index width # rest) = (index, width) # pairs_of rest"
| "pairs_of (NotIterable # rest) = []"

fun stores :: "'n index_arg \<Rightarrow> 'n width_arg \<Rightarrow> (int \<times> 'n) list" where
  "stores (Sizes sizes) width = pairs_of sizes"
| "stores (Index index) (Width width) = [(index, width)]"
| "stores indexOrSizes width = []"

text \<open>
  \<open>getExcelColumn\<close>: the table, or the computation where the table has no entry or
  an empty one.
\<close>

definition getExcelColumn :: "int \<Rightarrow> string" where
  "getExcelColumn index =
     (case COLUMNS index of
        Some name \<Rightarrow> if name = [] then columnName index else name
      | None \<Rightarrow> columnName index)"

text \<open>\<open>writeChunk\<close>: the body of the inner loop, the inner loop, the outer loop.\<close>

fun writeCell ::
  "('n, 'd) runtime \<Rightarrow> SharedStrings \<Rightarrow> string \<Rightarrow> ('n, 'd) cell \<Rightarrow> string \<times> SharedStrings" where
  \<open>writeCell rt ss ref CNull = (''<c r="'' @ ref @ ''"/>'', ss)\<close>
| \<open>writeCell rt ss ref CUndefined = (''<c r="'' @ ref @ ''"/>'', ss)\<close>
| \<open>writeCell rt ss ref (CString str) =
     (let (id, ss') = add ss str
      in (''<c r="'' @ ref @ ''" t="s"><v>'' @ nat_toString id @ ''</v></c>'', ss'))\<close>
| \<open>writeCell rt ss ref (CNumber n) =
     (''<c r="'' @ ref @ ''"><v>'' @ numberText rt n @ ''</v></c>'', ss)\<close>
| \<open>writeCell rt ss ref (CDate d) =
     (''<c r="'' @ ref @ ''" s="1"><v>'' @ numberText rt (convertToExcelDate rt d) @ ''</v></c>'', ss)\<close>
| \<open>writeCell rt ss ref (CObject str) =
     (let (id, ss') = add ss str
      in (''<c r="'' @ ref @ ''" t="s"><v>'' @ nat_toString id @ ''</v></c>'', ss'))\<close>
| \<open>writeCell rt ss ref (COther str) =
     (let (id, ss') = add ss str
      in (''<c r="'' @ ref @ ''" t="s"><v>'' @ nat_toString id @ ''</v></c>'', ss'))\<close>

fun writeCells ::
  "('n, 'd) runtime \<Rightarrow> string \<Rightarrow> ('n, 'd) cell list \<Rightarrow> nat \<Rightarrow> SharedStrings \<Rightarrow> string list
     \<Rightarrow> string list \<times> SharedStrings" where
  "writeCells rt row [] ci ss chunks = (chunks, ss)"
| "writeCells rt row (cell # cols) ci ss chunks =
     (let ref = getExcelColumn (int ci) @ row;
          (c, ss') = writeCell rt ss ref cell
      in writeCells rt row cols (ci + 1) ss' (chunks @ [c]))"

fun writeRows ::
  "('n, 'd) runtime \<Rightarrow> ('n, 'd) cell list list \<Rightarrow> nat \<Rightarrow> nat \<Rightarrow> SharedStrings \<Rightarrow> string list
     \<Rightarrow> string list \<times> SharedStrings" where
  "writeRows rt [] startIndex i ss chunks = (chunks, ss)"
| \<open>writeRows rt (cols # rest) startIndex i ss chunks =
     (let row = nat_toString (startIndex + i + 1);
          (chunks', ss') = writeCells rt row cols 0 ss (chunks @ [''<row r="'' @ row @ ''">''])
      in writeRows rt rest startIndex (i + 1) ss' (chunks' @ [''</row>'']))\<close>

definition writeChunk ::
  "('n, 'd) runtime \<Rightarrow> SharedStrings \<Rightarrow> ('n, 'd) cell list list \<Rightarrow> nat \<Rightarrow> string \<times> SharedStrings" where
  "writeChunk rt ss rs startIndex =
     (let (chunks, ss') = writeRows rt rs startIndex 0 ss []
      in (concat chunks, ss'))"

text \<open>
  The text a cell hands to the string table, if it hands one: a text cell is a
  string, or a value the encoder turns into its string.
\<close>

fun cell_text :: "('n, 'd) cell \<Rightarrow> string option" where
  "cell_text (CString str) = Some str"
| "cell_text (CObject str) = Some str"
| "cell_text (COther str) = Some str"
| "cell_text cell = None"

text \<open>
  \<open>generateSheetXML\<close>. \<open>slice\<close> is \<open>Array.prototype.slice\<close> for \<open>0 \<le> a \<le> b\<close>. The
  batch loop takes the batch size, which the source fixes at \<open>CHUNK_SIZE\<close>; with a
  size of \<open>0\<close> and a row to write the source's loop never ends, which is \<open>None\<close>.
\<close>

definition slice :: "'a list \<Rightarrow> nat \<Rightarrow> nat \<Rightarrow> 'a list" where
  "slice xs a b = take (b - a) (drop a xs)"

function chunk_loop ::
  "nat \<Rightarrow> ('n, 'd) runtime \<Rightarrow> ('n, 'd) cell list list \<Rightarrow> nat \<Rightarrow> SharedStrings \<Rightarrow> string list
     \<Rightarrow> (string list \<times> SharedStrings) option" where
  "chunk_loop chunkSize rt rs i ss out =
     (if i < length rs
      then (if chunkSize = 0 then None
            else (let chunk = slice rs i (i + chunkSize);
                      (content, ss') = writeChunk rt ss chunk i
                  in chunk_loop chunkSize rt rs (i + chunkSize) ss' (out @ [content])))
      else Some (out, ss))"
  by pat_completeness auto
termination
  by (relation "measure (\<lambda>(chunkSize, rt, rs, i, ss, out). length rs - i)") auto

declare chunk_loop.simps [simp del]

definition sheet_header :: string where
  \<open>sheet_header =
     ''<?xml version="1.0" encoding="UTF-8" standalone="yes"?>'' @ [CHR 0x0A] @
     ''<worksheet xmlns="http://schemas.openxmlformats.org/spreadsheetml/2006/main">''\<close>

definition generateSheetXML_sized ::
  "nat \<Rightarrow> ('n, 'd) runtime \<Rightarrow> ('n, 'd) Sheet \<Rightarrow> SharedStrings \<Rightarrow> (string list \<times> SharedStrings) option" where
  "generateSheetXML_sized chunkSize rt this ss =
     (let out = [sheet_header];
          out' = (if length (columnWidths this) > 0
                  then out @ [''<cols>'' @ concat (map (mapper rt) (columnWidths this)) @ ''</cols>'']
                  else out)
      in case chunk_loop chunkSize rt (rows this) 0 ss (out' @ [''<sheetData>'']) of
           None \<Rightarrow> None
         | Some (out'', ss') \<Rightarrow> Some (out'' @ [''</sheetData></worksheet>''], ss'))"

definition generateSheetXML ::
  "('n, 'd) runtime \<Rightarrow> ('n, 'd) Sheet \<Rightarrow> SharedStrings \<Rightarrow> (string list \<times> SharedStrings) option" where
  "generateSheetXML = generateSheetXML_sized CHUNK_SIZE"

section \<open>templates/styles.ts\<close>

fun lines_text :: "string list \<Rightarrow> string" where
  "lines_text [] = []"
| "lines_text [l] = l"
| "lines_text (l # ls) = l @ [CHR 0x0A] @ lines_text ls"

definition generateStyles :: string where
  \<open>generateStyles = lines_text
     [''<?xml version="1.0" encoding="UTF-8" standalone="yes"?>'',
      ''<styleSheet xmlns="http://schemas.openxmlformats.org/spreadsheetml/2006/main">'',
      ''  <numFmts count="1">'',
      ''      <numFmt numFmtId="164" formatCode="yyyy-mm-dd"/>'',
      ''  </numFmts>'',
      ''  <fonts count="1">'',
      ''      <font>'',
      ''          <sz val="11"/>'',
      ''          <name val="Calibri"/>'',
      ''          <family val="2"/>'',
      ''      </font>'',
      ''  </fonts>'',
      ''  <fills count="1">'',
      ''      <fill>'',
      ''          <patternFill patternType="none"/>'',
      ''      </fill>'',
      ''  </fills>'',
      ''  <borders count="1">'',
      ''      <border>'',
      ''          <left/><right/><top/><bottom/><diagonal/>'',
      ''      </border>'',
      ''  </borders>'',
      ''  <cellStyleXfs count="1">'',
      ''      <xf numFmtId="0" fontId="0" fillId="0" borderId="0"/>'',
      ''  </cellStyleXfs>'',
      ''  <cellXfs count="2">'',
      ''      <xf numFmtId="0" fontId="0" fillId="0" borderId="0" xfId="0"/>'',
      ''      <xf numFmtId="164" fontId="0" fillId="0" borderId="0" xfId="0" applyNumberFormat="1"/>'',
      ''  </cellXfs>'',
      ''</styleSheet>'']\<close>

section \<open>packing.ts\<close>

text \<open>
  The other four template functions are not among the sources; their texts are
  parameters of the model.
\<close>

record templates =
  getBaseRels :: string
  getWorkbookXML :: string
  getWorkbookRels :: string
  getContentTypes :: string

text \<open>
  The archive is the list of its entries, name and content, in the order they were
  first added; adding under a name it holds replaces that entry. The buffer
  \<open>toBuffer\<close> returns is represented by the entries it packs. Temporary files live
  in a map from paths to contents, string tables in a store, by address. The model
  follows the runs in which every stream write succeeds.
\<close>

type_synonym archive = "(string \<times> string) list"

type_synonym files = "string \<rightharpoonup> string"

type_synonym tables = "nat \<Rightarrow> SharedStrings"

record ('n, 'd) Package =
  zipfile :: archive
  pkg_sharedStrings :: nat
  pkg_sheet :: "('n, 'd) Sheet"
  disposable :: "string list"

definition new_Package :: "('n, 'd) Sheet \<Rightarrow> nat \<Rightarrow> ('n, 'd) Package" where
  "new_Package sheet ref = \<lparr>zipfile = [], pkg_sharedStrings = ref, pkg_sheet = sheet, disposable = []\<rparr>"

definition basename :: "string \<Rightarrow> string" where
  "basename p = rev (takeWhile (\<lambda>c. c \<noteq> CHR ''/'') (rev p))"

definition dirname :: "string \<Rightarrow> string" where
  "dirname p =
     (if CHR ''/'' \<in> set p then rev (tl (dropWhile (\<lambda>c. c \<noteq> CHR ''/'') (rev p))) else ''.'')"

definition pkg_add :: "string \<Rightarrow> string \<Rightarrow> ('n, 'd) Package \<Rightarrow> ('n, 'd) Package" where
  "pkg_add path content this = this\<lparr>zipfile := AList.update path content (zipfile this)\<rparr>"

text \<open>\<open>addLocalFile\<close> reads the local file when it is called; a missing file is an error.\<close>

definition addFile :: "string \<Rightarrow> string \<Rightarrow> ('n, 'd) Package \<Rightarrow> files \<Rightarrow> ('n, 'd) Package option" where
  "addFile file localpath this fs =
     (let zipName = basename file;
          zipPath = dirname file
      in case fs localpath of
           None \<Rightarrow> None
         | Some data \<Rightarrow>
             Some (this\<lparr>zipfile := AList.update (zipPath @ ''/'' @ zipName) data (zipfile this),
                        disposable := disposable this @ [localpath]\<rparr>))"

definition addMockFiles :: "templates \<Rightarrow> ('n, 'd) Package \<Rightarrow> ('n, 'd) Package" where
  "addMockFiles tpl this =
     pkg_add ''[Content_Types].xml'' (getContentTypes tpl)
       (pkg_add ''xl/styles.xml'' generateStyles
         (pkg_add ''xl/_rels/workbook.xml.rels'' (getWorkbookRels tpl)
           (pkg_add ''xl/workbook.xml'' (getWorkbookXML tpl)
             (pkg_add ''_rels/.rels'' (getBaseRels tpl) this))))"

text \<open>
  The two generators as \<open>build\<close> sees them: each writes its temporary file and
  returns the path; the sheet's generator also leaves its table, the one the sheet
  refers to, populated.
\<close>

definition sheet_generate ::
  "('n, 'd) runtime \<Rightarrow> ('n, 'd) Sheet \<Rightarrow> tables \<Rightarrow> files \<Rightarrow> (string \<times> tables \<times> files) option" where
  "sheet_generate rt sheet store fs =
     (case generateSheetXML rt sheet (store (sharedStrings sheet)) of
        None \<Rightarrow> None
      | Some (out, ss') \<Rightarrow>
          Some (sheet_file sheet, store(sharedStrings sheet := ss'),
                fs(sheet_file sheet \<mapsto> concat out)))"

definition strings_generate :: "SharedStrings \<Rightarrow> files \<Rightarrow> string \<times> files" where
  "strings_generate table fs =
     (strings_file table, fs(strings_file table \<mapsto> concat (generateSharedStringsXML table)))"

definition dispose :: "('n, 'd) Package \<Rightarrow> files \<Rightarrow> files" where
  "dispose this fs = fs |` (- set (disposable this))"

definition build ::
  "templates \<Rightarrow> ('n, 'd) runtime \<Rightarrow> ('n, 'd) Package \<Rightarrow> tables \<Rightarrow> files
     \<Rightarrow> (archive \<times> ('n, 'd) Package \<times> tables \<times> files) option" where
  "build tpl rt this store fs =
     (let this1 = addMockFiles tpl this
      in case sheet_generate rt (pkg_sheet this1) store fs of
           None \<Rightarrow> None
         | Some (file, store1, fs1) \<Rightarrow>
             (case addFile ''xl/worksheets/sheet1.xml'' file this1 fs1 of
                None \<Rightarrow> None
              | Some this2 \<Rightarrow>
                  (case (if size_strings (store1 (pkg_sharedStrings this2)) > 0
                         then (let (content, fs2) = strings_generate (store1 (pkg_sharedStrings this2)) fs1
                               in case addFile ''xl/sharedStrings.xml'' content this2 fs2 of
                                    None \<Rightarrow> None
                                  | Some this3 \<Rightarrow> Some (this3, fs2))
                         else Some (this2, fs1)) of
                     None \<Rightarrow> None
                   | Some (this3, fs3) \<Rightarrow>
                       Some (zipfile this3, this3, store1, dispose this3 fs3))))"

section \<open>Decimal text\<close>

lemma digit_codes: "\<forall>d \<in> set [0..<10]. (of_char (''0123456789'' ! d) :: nat) = 48 + d"
  by code_simp

lemma digit_code: "d < 10 \<Longrightarrow> (of_char (''0123456789'' ! d) :: nat) = 48 + d"
  using digit_codes by simp

lemma nat_toString_decimal:
  "foldl (\<lambda>a c. 10 * a + (of_char c - 48)) (0::nat) (nat_toString n) = n"
proof (induction n rule: nat_toString.induct)
  case (1 n)
  show ?case
  proof (cases "n < 10")
    case True
    then show ?thesis by (subst nat_toString.simps) (simp add: digit_code)
  next
    case False
    have d: "(of_char (''0123456789'' ! (n mod 10)) :: nat) = 48 + n mod 10"
      by (rule digit_code) simp
    have "foldl (\<lambda>a c. 10 * a + (of_char c - 48)) (0::nat) (nat_toString n) =
            10 * foldl (\<lambda>a c. 10 * a + (of_char c - 48)) (0::nat) (nat_toString (n div 10)) +
            (of_char (''0123456789'' ! (n mod 10)) - 48)"
      using False by (subst nat_toString.simps) simp
    then show ?thesis using "1.IH" [OF False] d by simp
  qed
qed

section \<open>Column names\<close>

lemma columnName_loop_acc: "columnName_loop index column = columnName_loop index [] @ column"
proof (induction "nat (index + 1)" arbitrary: index column rule: less_induct)
  case less
  show ?case
  proof (cases "index \<ge> 0")
    case True
    let ?next = "index div 26 - 1" and ?c = "char_of (65 + index mod 26) :: char"
    have smaller: "nat (?next + 1) < nat (index + 1)"
      using True by simp
    have "columnName_loop index column = columnName_loop ?next (?c # column)"
      using True by (subst columnName_loop.simps) simp
    also have "\<dots> = columnName_loop ?next [] @ (?c # column)"
      using less [OF smaller] .
    finally have a: "columnName_loop index column = columnName_loop ?next [] @ (?c # column)" .
    have "columnName_loop index [] = columnName_loop ?next [?c]"
      using True by (subst columnName_loop.simps) simp
    also have "\<dots> = columnName_loop ?next [] @ [?c]"
      using less [OF smaller] .
    finally show ?thesis using a by simp
  next
    case False
    then show ?thesis by (simp add: columnName_loop.simps)
  qed
qed

lemma columnName_step:
  assumes "0 \<le> index"
  shows "columnName index = columnName (index div 26 - 1) @ [char_of (65 + index mod 26)]"
proof -
  have "columnName index = columnName_loop (index div 26 - 1) [char_of (65 + index mod 26)]"
    unfolding columnName_def using assms by (subst columnName_loop.simps) simp
  then show ?thesis
    unfolding columnName_def
    using columnName_loop_acc [of "index div 26 - 1" "[char_of (65 + index mod 26)]"] by simp
qed

lemma columnName_negative: "index < 0 \<Longrightarrow> columnName index = []"
  by (simp add: columnName_def columnName_loop.simps)

lemma columnName_nonempty: "0 \<le> index \<Longrightarrow> columnName index \<noteq> []"
  using columnName_step [of index] by simp

lemma getExcelColumn_columnName: "getExcelColumn index = columnName index"
  by (simp add: getExcelColumn_def COLUMNS_def)

lemma letter_all:
  "\<forall>k \<in> set [0..25]. char_of (65 + k :: int) = ''ABCDEFGHIJKLMNOPQRSTUVWXYZ'' ! nat k"
  by code_simp

lemma letter:
  "0 \<le> k \<Longrightarrow> k < 26 \<Longrightarrow> char_of (65 + k :: int) = ''ABCDEFGHIJKLMNOPQRSTUVWXYZ'' ! nat k"
  using letter_all by auto

text \<open>
  C9. The name of a column index: nothing below zero; from zero on, the letter
  numbered \<open>index mod 26\<close> (0 is A, 25 is Z) put after the name of
  \<open>index div 26 - 1\<close>, which is what prepending letters until the index falls
  below zero builds. The sheet's lookup, through its table of the first 702 names,
  gives the same name as the computation. The five names of the specification.
\<close>

theorem columnName_letters:
  "(index < 0 \<longrightarrow> columnName index = []) \<and>
   (0 \<le> index \<longrightarrow>
      columnName index =
        columnName (index div 26 - 1) @ [''ABCDEFGHIJKLMNOPQRSTUVWXYZ'' ! nat (index mod 26)]) \<and>
   getExcelColumn index = columnName index \<and>
   columnName 0 = ''A'' \<and> columnName 25 = ''Z'' \<and> columnName 26 = ''AA'' \<and>
   columnName 701 = ''ZZ'' \<and> columnName 702 = ''AAA''"
proof -
  have five: "columnName 0 = ''A''" "columnName 25 = ''Z''" "columnName 26 = ''AA''"
    "columnName 701 = ''ZZ''" "columnName 702 = ''AAA''"
    by code_simp+
  have step: "0 \<le> index \<longrightarrow>
      columnName index =
        columnName (index div 26 - 1) @ [''ABCDEFGHIJKLMNOPQRSTUVWXYZ'' ! nat (index mod 26)]"
    using columnName_step [of index] letter [of "index mod 26"] by simp
  show ?thesis
    using five step columnName_negative [of index] getExcelColumn_columnName [of index]
    by blast
qed

theorem columnName_letters_witness:
  "columnName 27 = columnName 0 @ ''B'' \<and> columnName 27 = ''AB'' \<and> columnName (- 1) = []"
  using columnName_letters [of 27] columnName_letters [of "- 1"] by simp


section \<open>Escaping\<close>

lemma escapeXML_append: "escapeXML (xs @ ys) = escapeXML xs @ escapeXML ys"
  by (simp add: escapeXML_def replace_special_def replace_control_def)

lemma escapeXML_Nil: "escapeXML [] = []"
  by (simp add: escapeXML_def replace_special_def replace_control_def)

lemma escapeXML_Cons: "escapeXML (c # cs) = escapeXML [c] @ escapeXML cs"
  using escapeXML_append [of "[c]" cs] by simp

lemma backslash_special: "special (CHR 0x5C) \<and> \<not> control (CHR 0x5C) \<and> entities (CHR 0x5C) = None"
  by (simp add: special_def control_def entities_def)

lemma escapeXML_backslash: "escapeXML [CHR 0x5C] = ''undefined''"
  by (simp add: escapeXML_def replace_special_def replace_control_def backslash_special)

lemma escapeXML_char:
  "escapeXML [c] =
     (if control c then ''?''
      else if c = CHR ''&'' then ''&amp;''
      else if c = CHR ''<'' then ''&lt;''
      else if c = CHR ''>'' then ''&gt;''
      else if c = CHR 0x22 then ''&quot;''
      else if c = CHR 0x27 then ''&apos;''
      else if c = CHR 0x5C then ''undefined''
      else [c])"
  by (simp add: escapeXML_def replace_special_def replace_control_def special_def entities_def control_def)

lemma escapeXML_chars: "escapeXML value = concat (map (\<lambda>c. escapeXML [c]) value)"
proof (induction "value")
  case Nil
  then show ?case by (simp add: escapeXML_Nil)
next
  case (Cons c cs)
  have "escapeXML (c # cs) = escapeXML [c] @ escapeXML cs"
    by (rule escapeXML_Cons)
  then show ?case using Cons.IH by simp
qed

lemma escapeXML_without_backslash:
  assumes "CHR 0x5C \<notin> set value"
  shows "escapeXML value =
     concat (map (\<lambda>c. if control c then ''?''
                       else if c = CHR ''&'' then ''&amp;''
                       else if c = CHR ''<'' then ''&lt;''
                       else if c = CHR ''>'' then ''&gt;''
                       else if c = CHR 0x22 then ''&quot;''
                       else if c = CHR 0x27 then ''&apos;''
                       else [c]) value)"
proof -
  have "escapeXML value = concat (map (\<lambda>c. escapeXML [c]) value)"
    by (rule escapeXML_chars)
  also have "\<dots> = concat (map (\<lambda>c. if control c then ''?''
                       else if c = CHR ''&'' then ''&amp;''
                       else if c = CHR ''<'' then ''&lt;''
                       else if c = CHR ''>'' then ''&gt;''
                       else if c = CHR 0x22 then ''&quot;''
                       else if c = CHR 0x27 then ''&apos;''
                       else [c]) value)"
    using assms by (intro arg_cong [where f = concat] map_cong refl) (auto simp: escapeXML_char)
  finally show ?thesis .
qed

lemma escapeXML_safe:
  "\<forall>c \<in> set (escapeXML value).
     \<not> control c \<and> c \<noteq> CHR ''<'' \<and> c \<noteq> CHR ''>'' \<and> c \<noteq> CHR 0x22 \<and> c \<noteq> CHR 0x27"
proof -
  have one: "\<forall>c \<in> set (escapeXML [d]).
     \<not> control c \<and> c \<noteq> CHR ''<'' \<and> c \<noteq> CHR ''>'' \<and> c \<noteq> CHR 0x22 \<and> c \<noteq> CHR 0x27" for d
    by (simp add: escapeXML_char control_def)
  show ?thesis
    by (subst escapeXML_chars) (use one in auto)
qed

lemma escapeXML_mapping:
  "escapeXML str =
     concat (map (\<lambda>c. if (of_char c :: nat) \<le> 0x1F \<or> (of_char c :: nat) = 0x7F then ''?''
                       else if c = CHR ''&'' then ''&amp;''
                       else if c = CHR ''<'' then ''&lt;''
                       else if c = CHR ''>'' then ''&gt;''
                       else if c = CHR 0x22 then ''&quot;''
                       else if c = CHR 0x27 then ''&apos;''
                       else if c = CHR 0x5C then ''undefined''
                       else [c]) str)"
proof -
  have "escapeXML str = concat (map (\<lambda>c. escapeXML [c]) str)"
    by (rule escapeXML_chars)
  then show ?thesis by (simp only: escapeXML_char control_def)
qed

text \<open>
  C10. Every backslash of the input comes out as the nine characters
  \<open>undefined\<close>, whatever stands before and after it: the pattern of the second
  replacement matches the backslash and the entity table has no entry for it. The
  text \<open>a\b\<close> becomes \<open>aundefinedb\<close>.
\<close>

theorem escapeXML_backslash_undefined:
  "escapeXML (before @ [CHR 0x5C] @ after) = escapeXML before @ ''undefined'' @ escapeXML after \<and>
   length ''undefined'' = 9 \<and>
   special (CHR 0x5C) \<and> entities (CHR 0x5C) = None \<and>
   escapeXML [CHR ''a'', CHR 0x5C, CHR ''b''] = ''aundefinedb''"
proof -
  have "escapeXML [CHR ''a'', CHR 0x5C, CHR ''b''] = ''aundefinedb''"
    by code_simp
  moreover have "escapeXML (before @ [CHR 0x5C] @ after) =
      escapeXML before @ escapeXML [CHR 0x5C] @ escapeXML after"
    by (simp only: escapeXML_append)
  ultimately show ?thesis
    using backslash_special by (simp only: escapeXML_backslash) simp
qed

text \<open>
  C7. The function on a text that holds the five special characters, the control
  character 1 and a backslash between the letters \<open>a\<close> and \<open>b\<close>: the control
  character becomes a question mark and the five become their entities, but the
  backslash, which is neither, is not left unchanged.
\<close>

theorem escapeXML_backslash_input:
  "escapeXML (''a&<>'' @ [CHR 0x22, CHR 0x27, CHR 0x01, CHR 0x5C] @ ''b'') =
     ''a&amp;&lt;&gt;&quot;&apos;?undefinedb''"
  by code_simp

section \<open>The string table\<close>

lemma table_ok_new: "table_ok (new_SharedStrings path)"
  by (simp add: table_ok_def new_SharedStrings_def)

lemma table_ok_lookup:
  assumes "table_ok this"
  shows "(stringIndexMap this str = None) = (str \<notin> set (strings this))"
proof -
  have "(\<exists>i. stringIndexMap this str = Some i) = (str \<in> set (strings this))"
    using assms by (auto simp: table_ok_def in_set_conv_nth)
  then show ?thesis by auto
qed

lemma add_seen:
  assumes "table_ok this" and "str \<in> set (strings this)"
  shows "\<exists>i. add this str = (i, this) \<and> i < length (strings this) \<and> strings this ! i = str"
proof -
  from assms obtain i where i: "stringIndexMap this str = Some i"
    using table_ok_lookup [of this str] by auto
  then have "i < length (strings this) \<and> strings this ! i = str"
    using assms(1) by (simp add: table_ok_def)
  then show ?thesis using i by (simp add: add_def)
qed

lemma add_new:
  assumes "table_ok this" and "str \<notin> set (strings this)"
  shows "add this str =
     (length (strings this),
      this\<lparr>strings := strings this @ [str],
           stringIndexMap := (stringIndexMap this)(str \<mapsto> length (strings this))\<rparr>)"
  using assms table_ok_lookup [of this str] by (simp add: add_def Let_def)

lemma table_ok_add:
  assumes "table_ok this"
  shows "table_ok (snd (add this str))"
proof (cases "str \<in> set (strings this)")
  case True
  then show ?thesis using add_seen [OF assms True] assms by auto
next
  case False
  have "table_ok (this\<lparr>strings := strings this @ [str],
           stringIndexMap := (stringIndexMap this)(str \<mapsto> length (strings this))\<rparr>)"
    using assms False unfolding table_ok_def
    by (auto simp: nth_append in_set_conv_nth)
  then show ?thesis using add_new [OF assms False] by simp
qed

lemma strings_add:
  assumes "table_ok this"
  shows "strings (snd (add this str)) =
           (if str \<in> set (strings this) then strings this else strings this @ [str])"
proof (cases "str \<in> set (strings this)")
  case True
  then show ?thesis using add_seen [OF assms True] by auto
next
  case False
  then show ?thesis using add_new [OF assms False] by simp
qed

lemma add_id:
  assumes "table_ok this"
  shows "fst (add this str) < length (strings (snd (add this str))) \<and>
         strings (snd (add this str)) ! fst (add this str) = str"
proof (cases "str \<in> set (strings this)")
  case True
  then show ?thesis using add_seen [OF assms True] by auto
next
  case False
  then show ?thesis using add_new [OF assms False] by simp
qed


lemma add_all_append:
  "add_all this (xs @ ys) =
     (let (ids1, this1) = add_all this xs;
          (ids2, this2) = add_all this1 ys
      in (ids1 @ ids2, this2))"
  by (induction xs arbitrary: this) (auto split: prod.splits)

lemma add_all_facts:
  assumes "table_ok this" and "add_all this xs = (ids, this')"
  shows "table_ok this' \<and> length ids = length xs \<and>
         (\<exists>new. strings this' = strings this @ new) \<and>
         set (strings this') = set (strings this) \<union> set xs \<and>
         (\<forall>i < length xs. ids ! i < length (strings this') \<and> strings this' ! (ids ! i) = xs ! i)"
  using assms
proof (induction xs arbitrary: this ids this')
  case Nil
  then show ?case by simp
next
  case (Cons x xs)
  obtain i this1 where a: "add this x = (i, this1)" by (cases "add this x")
  obtain ids1 this2 where b: "add_all this1 xs = (ids1, this2)" by (cases "add_all this1 xs")
  have res: "ids = i # ids1" "this' = this2"
    using Cons.prems(2) a b by simp_all
  have ok1: "table_ok this1" using table_ok_add [OF Cons.prems(1), of x] a by simp
  have s1: "strings this1 = (if x \<in> set (strings this) then strings this else strings this @ [x])"
    using strings_add [OF Cons.prems(1), of x] a by simp
  have i1: "i < length (strings this1) \<and> strings this1 ! i = x"
    using add_id [OF Cons.prems(1), of x] a by simp
  note ih = Cons.IH [OF ok1 b]
  from ih obtain new where new: "strings this2 = strings this1 @ new" by blast
  have pre: "\<exists>new. strings this2 = strings this @ new"
    using new s1 by (cases "x \<in> set (strings this)") auto
  have sets: "set (strings this2) = set (strings this) \<union> set (x # xs)"
    using ih s1 by (cases "x \<in> set (strings this)") auto
  have ids: "\<forall>k < length (x # xs). (i # ids1) ! k < length (strings this2) \<and>
               strings this2 ! ((i # ids1) ! k) = (x # xs) ! k"
  proof (intro allI impI)
    fix k assume k: "k < length (x # xs)"
    show "(i # ids1) ! k < length (strings this2) \<and> strings this2 ! ((i # ids1) ! k) = (x # xs) ! k"
    proof (cases k)
      case 0
      then show ?thesis using i1 new by (simp add: nth_append)
    next
      case (Suc j)
      then show ?thesis using ih k by simp
    qed
  qed
  show ?case using ih pre sets ids res by simp
qed


lemma length_add_all: "length (fst (add_all this xs)) = length xs"
  by (induction xs arbitrary: this) (simp_all add: split_beta Let_def)

lemma add_all_nth:
  assumes "i < length xs"
  shows "fst (add_all this xs) ! i = fst (add (snd (add_all this (take i xs))) (xs ! i))"
proof -
  obtain ids1 this1 where a: "add_all this (take i xs) = (ids1, this1)"
    by (cases "add_all this (take i xs)")
  obtain i0 this2 where b: "add this1 (xs ! i) = (i0, this2)"
    by (cases "add this1 (xs ! i)")
  obtain ids2 this3 where c: "add_all this2 (drop (Suc i) xs) = (ids2, this3)"
    by (cases "add_all this2 (drop (Suc i) xs)")
  have len: "length ids1 = i"
    using length_add_all [of this "take i xs"] a assms by simp
  have "xs = take i xs @ (xs ! i # drop (Suc i) xs)"
    using assms by (simp add: id_take_nth_drop)
  then have "add_all this xs = add_all this (take i xs @ (xs ! i # drop (Suc i) xs))"
    by simp
  also have "\<dots> = (ids1 @ i0 # ids2, this3)"
    by (simp only: add_all_append a b c add_all.simps Let_def prod.case)
  finally have "fst (add_all this xs) ! i = i0"
    using len by (simp add: nth_append)
  then show ?thesis using a b by simp
qed

text \<open>
  C2. For every sequence of \<open>add\<close> calls on a fresh table: two calls return the
  same id exactly when they were given the same string; a string not seen before
  gets the number of entries at the moment of its call; and \<open>size()\<close> is the number
  of distinct strings added.
\<close>

theorem add_deduplicates:
  assumes "add_all (new_SharedStrings path) xs = (ids, this)"
  shows "length ids = length xs \<and>
         (\<forall>i < length xs. \<forall>j < length xs. (ids ! i = ids ! j) = (xs ! i = xs ! j)) \<and>
         (\<forall>i < length xs. xs ! i \<notin> set (take i xs) \<longrightarrow>
            ids ! i = size_strings (snd (add_all (new_SharedStrings path) (take i xs)))) \<and>
         size_strings this = card (set xs)"
proof -
  let ?new = "new_SharedStrings path"
  note facts = add_all_facts [OF table_ok_new assms]
  have dist: "distinct (strings this)" using facts by (simp add: table_ok_def)
  have set_eq: "set (strings this) = set xs"
    using facts by (simp add: new_SharedStrings_def)
  have at: "\<And>i. i < length xs \<Longrightarrow> ids ! i < length (strings this) \<and> strings this ! (ids ! i) = xs ! i"
    using facts by blast
  have same: "\<forall>i < length xs. \<forall>j < length xs. (ids ! i = ids ! j) = (xs ! i = xs ! j)"
  proof (intro allI impI)
    fix i j assume i: "i < length xs" and j: "j < length xs"
    show "(ids ! i = ids ! j) = (xs ! i = xs ! j)"
      using at [OF i] at [OF j] dist by (metis nth_eq_iff_index_eq)
  qed
  have fresh: "\<forall>i < length xs. xs ! i \<notin> set (take i xs) \<longrightarrow>
            ids ! i = size_strings (snd (add_all ?new (take i xs)))"
  proof (intro allI impI)
    fix i assume i: "i < length xs" and unseen: "xs ! i \<notin> set (take i xs)"
    obtain ids1 this1 where a: "add_all ?new (take i xs) = (ids1, this1)"
      by (cases "add_all ?new (take i xs)")
    note f1 = add_all_facts [OF table_ok_new a]
    have "set (strings this1) = set (take i xs)"
      using f1 by (simp add: new_SharedStrings_def)
    then have "xs ! i \<notin> set (strings this1)" using unseen by simp
    then have "fst (add this1 (xs ! i)) = length (strings this1)"
      using add_new [of this1 "xs ! i"] f1 by simp
    then show "ids ! i = size_strings (snd (add_all ?new (take i xs)))"
      using add_all_nth [OF i, of ?new] assms a by (simp add: size_strings_def)
  qed
  have "size_strings this = card (set xs)"
    using dist set_eq distinct_card [of "strings this"] by (simp add: size_strings_def)
  then show ?thesis using facts same fresh by blast
qed

theorem add_deduplicates_witness:
  "fst (add_all (new_SharedStrings ''t'') [''a'', ''b'', ''a'', ''c'']) = [0, 1, 0, 2] \<and>
   size_strings (snd (add_all (new_SharedStrings ''t'') [''a'', ''b'', ''a'', ''c''])) = 3 \<and>
   card (set [''a'', ''b'', ''a'', ''c'']) = 3"
proof -
  obtain ids this where r: "add_all (new_SharedStrings ''t'') [''a'', ''b'', ''a'', ''c''] = (ids, this)"
    by (cases "add_all (new_SharedStrings ''t'') [''a'', ''b'', ''a'', ''c'']")
  have v: "fst (add_all (new_SharedStrings ''t'') [''a'', ''b'', ''a'', ''c'']) = [0, 1, 0, 2]"
    by (simp add: new_SharedStrings_def add_def)
  have c: "card (set [''a'', ''b'', ''a'', ''c'']) = 3"
    by code_simp
  show ?thesis using add_deduplicates [OF r] r v c by simp
qed


section \<open>The string table document\<close>

lemma sst_loop_blocks:
  assumes "batch = 0 \<or> length a < batch"
  shows "\<exists>blocks rest.
           sst_loop batch strs (map si a) out =
             (map si rest, out @ map (\<lambda>b. concat (map si b)) blocks) \<and>
           a @ strs = concat blocks @ rest \<and>
           (\<forall>b \<in> set blocks. length b = batch) \<and>
           (batch = 0 \<or> length rest < batch)"
  using assms
proof (induction strs arbitrary: a out)
  case Nil
  have "sst_loop batch [] (map si a) out = (map si a, out @ map (\<lambda>b. concat (map si b)) [])"
    by simp
  moreover have "a @ [] = concat [] @ a" by simp
  ultimately show ?case using Nil.prems by (metis empty_iff list.set(1))
next
  case (Cons str strs)
  let ?a = "a @ [str]"
  show ?case
  proof (cases "length ?a mod batch = 0")
    case True
    have pos: "batch \<noteq> 0"
    proof
      assume "batch = 0"
      with True show False by simp
    qed
    have full: "length ?a = batch"
    proof (rule ccontr)
      assume "length ?a \<noteq> batch"
      then have "length ?a < batch" using pos Cons.prems by simp
      then have "length ?a mod batch = length ?a" by simp
      with True show False by simp
    qed
    have start: "batch = 0 \<or> length ([] :: string list) < batch" using pos by simp
    from Cons.IH [OF start, of "out @ [concat (map si ?a)]"]
    obtain blocks rest where
      r: "sst_loop batch strs (map si []) (out @ [concat (map si ?a)]) =
            (map si rest, (out @ [concat (map si ?a)]) @ map (\<lambda>b. concat (map si b)) blocks)"
      and s: "[] @ strs = concat blocks @ rest"
      and l: "\<forall>b \<in> set blocks. length b = batch"
      and q: "batch = 0 \<or> length rest < batch"
      by blast
    have "sst_loop batch (str # strs) (map si a) out =
            (map si rest, out @ map (\<lambda>b. concat (map si b)) (?a # blocks))"
      using True r by simp
    moreover have "a @ str # strs = concat (?a # blocks) @ rest" using s by simp
    moreover have "\<forall>b \<in> set (?a # blocks). length b = batch" using l full by simp
    ultimately show ?thesis using q by blast
  next
    case False
    have less: "batch = 0 \<or> length ?a < batch"
    proof (cases "batch = 0")
      case True then show ?thesis by simp
    next
      case nz: False
      then have "length a < batch" using Cons.prems by simp
      moreover have "length ?a \<noteq> batch" using False by auto
      ultimately show ?thesis by simp
    qed
    from Cons.IH [OF less, of out]
    obtain blocks rest where
      r: "sst_loop batch strs (map si ?a) out =
            (map si rest, out @ map (\<lambda>b. concat (map si b)) blocks)"
      and s: "?a @ strs = concat blocks @ rest"
      and l: "\<forall>b \<in> set blocks. length b = batch"
      and q: "batch = 0 \<or> length rest < batch"
      by blast
    have "sst_loop batch (str # strs) (map si a) out =
            (map si rest, out @ map (\<lambda>b. concat (map si b)) blocks)"
      using False r by simp
    moreover have "a @ str # strs = concat blocks @ rest" using s by simp
    ultimately show ?thesis using l q by blast
  qed
qed

lemma concat_blocks:
  "concat (map (\<lambda>b. concat (map si b)) blocks) = concat (map si (concat blocks))"
  by (induction blocks) simp_all


lemma generateSharedStringsXML_blocks:
  "\<exists>blocks rest.
     generateSharedStringsXML_batch batch this =
       [sst_header (size_strings this)] @ map (\<lambda>b. concat (map si b)) blocks @
       [concat (map si rest) @ ''</sst>''] \<and>
     concat blocks @ rest = strings this \<and>
     (\<forall>b \<in> set blocks. length b = batch) \<and>
     (batch = 0 \<or> length rest < batch)"
proof -
  have start: "batch = 0 \<or> length ([] :: string list) < batch" by auto
  from sst_loop_blocks [OF start, of "strings this" "[sst_header (length (strings this))]"]
  obtain blocks rest where
    r: "sst_loop batch (strings this) (map si []) [sst_header (length (strings this))] =
          (map si rest, [sst_header (length (strings this))] @ map (\<lambda>b. concat (map si b)) blocks)"
    and s: "[] @ strings this = concat blocks @ rest"
    and l: "\<forall>b \<in> set blocks. length b = batch"
    and q: "batch = 0 \<or> length rest < batch"
    by blast
  have "generateSharedStringsXML_batch batch this =
       [sst_header (size_strings this)] @ map (\<lambda>b. concat (map si b)) blocks @
       [concat (map si rest) @ ''</sst>'']"
    using r by (simp add: generateSharedStringsXML_batch_def size_strings_def)
  then show ?thesis using s l q by auto
qed

text \<open>
  C6. For every table and every batch size. The first write is the header: the
  XML declaration and the \<open>sst\<close> tag whose \<open>count\<close> and \<open>uniqueCount\<close> are both the
  decimal numeral of the number of entries, which for a table filled by \<open>add\<close>
  calls is the number of distinct strings however often each was added. The
  writes after it are whole batches of whole entries, the last write holding the
  entries left and the closing tag. An entry is the string between \<open><si><t>\<close> and
  \<open></t></si>\<close>, escaped character by character: a control character (code up to
  0x1F, or 0x7F) becomes a question mark, the five special characters their
  entities, a backslash the text \<open>undefined\<close>, any other character itself; so no
  control character and none of \<open><\<close>, \<open>>\<close>, the double and the single quote is left in
  it. The document, all writes together, is the header, every entry once in the
  order of the array, and the closing tag, whatever the batch size.
\<close>

theorem generateSharedStringsXML_output:
  fixes this :: SharedStrings and batch :: nat
  defines \<open>header \<equiv>
     ''<?xml version="1.0" encoding="UTF-8" standalone="yes"?>'' @ [CHR 0x0A] @
     ''<sst xmlns="http://schemas.openxmlformats.org/spreadsheetml/2006/main"'' @ [CHR 0x0A] @
     ''            count="'' @ nat_toString (size_strings this) @
     ''" uniqueCount="'' @ nat_toString (size_strings this) @ ''">''\<close>
  defines \<open>escaped \<equiv> \<lambda>str.
     concat (map (\<lambda>c. if (of_char c :: nat) \<le> 0x1F \<or> (of_char c :: nat) = 0x7F then ''?''
                       else if c = CHR ''&'' then ''&amp;''
                       else if c = CHR ''<'' then ''&lt;''
                       else if c = CHR ''>'' then ''&gt;''
                       else if c = CHR 0x22 then ''&quot;''
                       else if c = CHR 0x27 then ''&apos;''
                       else if c = CHR 0x5C then ''undefined''
                       else [c]) str)\<close>
  defines \<open>entry \<equiv> \<lambda>str. ''<si><t>'' @ escaped str @ ''</t></si>''\<close>
  shows \<open>generateSharedStringsXML this = generateSharedStringsXML_batch 5000 this \<and>
   (\<exists>blocks rest.
      generateSharedStringsXML_batch batch this =
        [header] @ map (\<lambda>b. concat (map entry b)) blocks @ [concat (map entry rest) @ ''</sst>''] \<and>
      concat blocks @ rest = strings this \<and>
      (\<forall>b \<in> set blocks. length b = batch) \<and>
      (batch = 0 \<or> length rest < batch)) \<and>
   concat (generateSharedStringsXML_batch batch this) =
     header @ concat (map entry (strings this)) @ ''</sst>'' \<and>
   (\<forall>str. \<forall>c \<in> set (escaped str).
      \<not> ((of_char c :: nat) \<le> 0x1F \<or> (of_char c :: nat) = 0x7F) \<and>
      c \<noteq> CHR ''<'' \<and> c \<noteq> CHR ''>'' \<and> c \<noteq> CHR 0x22 \<and> c \<noteq> CHR 0x27) \<and>
   foldl (\<lambda>a c. 10 * a + (of_char c - 48)) (0::nat) (nat_toString (size_strings this)) =
     length (strings this) \<and>
   (\<forall>path xs ids. add_all (new_SharedStrings path) xs = (ids, this) \<longrightarrow>
      size_strings this = card (set xs))\<close>
proof -
  have h: "sst_header (size_strings this) = header"
    by (simp add: sst_header_def header_def)
  have esc: "escapeXML = escaped"
    unfolding escaped_def by (rule ext) (rule escapeXML_mapping)
  have e: "si = entry"
    by (rule ext) (simp add: si_def entry_def esc)
  from generateSharedStringsXML_blocks [of batch this]
  obtain blocks rest where
    w: "generateSharedStringsXML_batch batch this =
        [header] @ map (\<lambda>b. concat (map entry b)) blocks @ [concat (map entry rest) @ ''</sst>'']"
    and s: "concat blocks @ rest = strings this"
    and l: "\<forall>b \<in> set blocks. length b = batch"
    and q: "batch = 0 \<or> length rest < batch"
    unfolding h e by blast
  have cb: "concat (map (\<lambda>b. concat (map entry b)) blocks) = concat (map entry (concat blocks))"
    using concat_blocks [of blocks] unfolding e .
  have "concat (generateSharedStringsXML_batch batch this) =
     header @ concat (map entry (concat blocks)) @ concat (map entry rest) @ ''</sst>''"
    by (simp only: w concat_append cb concat.simps append_Nil2 append_assoc)
  also have "\<dots> = header @ concat (map entry (strings this)) @ ''</sst>''"
    using s [symmetric] by simp
  finally have whole: "concat (generateSharedStringsXML_batch batch this) =
     header @ concat (map entry (strings this)) @ ''</sst>''" .
  have safe: "\<forall>str. \<forall>c \<in> set (escaped str).
      \<not> ((of_char c :: nat) \<le> 0x1F \<or> (of_char c :: nat) = 0x7F) \<and>
      c \<noteq> CHR ''<'' \<and> c \<noteq> CHR ''>'' \<and> c \<noteq> CHR 0x22 \<and> c \<noteq> CHR 0x27"
    using escapeXML_safe unfolding esc control_def by blast
  have decimal: "foldl (\<lambda>a c. 10 * a + (of_char c - 48)) (0::nat) (nat_toString (size_strings this)) =
     length (strings this)"
    by (simp add: nat_toString_decimal size_strings_def)
  have counted: "\<forall>path xs ids. add_all (new_SharedStrings path) xs = (ids, this) \<longrightarrow>
      size_strings this = card (set xs)"
  proof (intro allI impI)
    fix path xs ids
    assume a: "add_all (new_SharedStrings path) xs = (ids, this)"
    note facts = add_all_facts [OF table_ok_new a]
    have "distinct (strings this)" using facts by (simp add: table_ok_def)
    moreover have "set (strings this) = set xs" using facts by (simp add: new_SharedStrings_def)
    ultimately show "size_strings this = card (set xs)"
      using distinct_card [of "strings this"] by (simp add: size_strings_def)
  qed
  have fixed: "generateSharedStringsXML this = generateSharedStringsXML_batch 5000 this"
    by (simp add: generateSharedStringsXML_def)
  have parts: "\<exists>blocks rest.
      generateSharedStringsXML_batch batch this =
        [header] @ map (\<lambda>b. concat (map entry b)) blocks @ [concat (map entry rest) @ ''</sst>''] \<and>
      concat blocks @ rest = strings this \<and>
      (\<forall>b \<in> set blocks. length b = batch) \<and>
      (batch = 0 \<or> length rest < batch)"
    using w s l q by blast
  show ?thesis
    using fixed parts whole safe decimal counted by (intro conjI)
qed


theorem generateSharedStringsXML_output_witness:
  \<open>strings (snd (add_all (new_SharedStrings ''t'') [''x'', ''x'', [CHR ''a'', CHR ''<'', CHR 0x01, CHR ''&'']])) =
     [''x'', [CHR ''a'', CHR ''<'', CHR 0x01, CHR ''&'']] \<and>
   size_strings (snd (add_all (new_SharedStrings ''t'') [''x'', ''x'', [CHR ''a'', CHR ''<'', CHR 0x01, CHR ''&'']])) =
     card (set [''x'', ''x'', [CHR ''a'', CHR ''<'', CHR 0x01, CHR ''&'']]) \<and>
   concat (generateSharedStringsXML_batch 1
     (snd (add_all (new_SharedStrings ''t'') [''x'', ''x'', [CHR ''a'', CHR ''<'', CHR 0x01, CHR ''&'']]))) =
     ''<?xml version="1.0" encoding="UTF-8" standalone="yes"?>'' @ [CHR 0x0A] @
     ''<sst xmlns="http://schemas.openxmlformats.org/spreadsheetml/2006/main"'' @ [CHR 0x0A] @
     ''            count="2" uniqueCount="2">'' @
     ''<si><t>x</t></si><si><t>a&lt;?&amp;</t></si></sst>'' \<and>
   generateSharedStringsXML_batch 1
     (snd (add_all (new_SharedStrings ''t'') [''x'', ''x'', [CHR ''a'', CHR ''<'', CHR 0x01, CHR ''&'']])) =
     [''<?xml version="1.0" encoding="UTF-8" standalone="yes"?>'' @ [CHR 0x0A] @
      ''<sst xmlns="http://schemas.openxmlformats.org/spreadsheetml/2006/main"'' @ [CHR 0x0A] @
      ''            count="2" uniqueCount="2">'',
      ''<si><t>x</t></si>'', ''<si><t>a&lt;?&amp;</t></si>'', ''</sst>'']\<close>
proof -
  let ?xs = "[''x'', ''x'', [CHR ''a'', CHR ''<'', CHR 0x01, CHR ''&'']]"
  let ?T = "snd (add_all (new_SharedStrings ''t'') ?xs)"
  obtain ids where r: "add_all (new_SharedStrings ''t'') ?xs = (ids, ?T)"
    by (cases "add_all (new_SharedStrings ''t'') ?xs") simp
  have T: "strings ?T = [''x'', [CHR ''a'', CHR ''<'', CHR 0x01, CHR ''&'']]"
    by (simp add: new_SharedStrings_def add_def)
  have n: "size_strings ?T = 2"
    using T by (simp add: size_strings_def)
  note inst = generateSharedStringsXML_output [of ?T 1]
  have counted: "size_strings ?T = card (set ?xs)"
    using inst r by blast
  have whole: "concat (generateSharedStringsXML_batch 1 ?T) =
     ''<?xml version=\"1.0\" encoding=\"UTF-8\" standalone=\"yes\"?>'' @ [CHR 0x0A] @
     ''<sst xmlns=\"http://schemas.openxmlformats.org/spreadsheetml/2006/main\"'' @ [CHR 0x0A] @
     ''            count=\"2\" uniqueCount=\"2\">'' @
     ''<si><t>x</t></si><si><t>a&lt;?&amp;</t></si></sst>''"
    using inst [THEN conjunct2, THEN conjunct2, THEN conjunct1]
    unfolding n T by (simp add: nat_toString.simps)
  have writes: "generateSharedStringsXML_batch 1 ?T =
     [''<?xml version=\"1.0\" encoding=\"UTF-8\" standalone=\"yes\"?>'' @ [CHR 0x0A] @
      ''<sst xmlns=\"http://schemas.openxmlformats.org/spreadsheetml/2006/main\"'' @ [CHR 0x0A] @
      ''            count=\"2\" uniqueCount=\"2\">'',
      ''<si><t>x</t></si>'', ''<si><t>a&lt;?&amp;</t></si>'', ''</sst>'']"
    unfolding generateSharedStringsXML_batch_def T
    by (simp add: sst_header_def si_def escapeXML_mapping nat_toString.simps)
  show ?thesis
    using T counted whole writes by (intro conjI)
qed

section \<open>Column widths\<close>

lemma set_sizes_stores:
  "set_sizes sizes widths =
     (if NotIterable \<in> set sizes then Some TypeError else None,
      foldl (\<lambda>m (k, v). AList.update k v m) widths (pairs_of sizes))"
proof (induction sizes arbitrary: widths)
  case Nil
  then show ?case by simp
next
  case (Cons x sizes)
  then show ?case by (cases x) simp_all
qed

lemma setColumWidth_stores:
  "columnWidths (snd (setColumWidth a w this)) =
     foldl (\<lambda>m (k, v). AList.update k v m) (columnWidths this) (stores a w)"
  by (cases "(a, w, this)" rule: setColumWidth.cases) (simp_all add: set_sizes_stores)

lemma setColumWidth_calls_stores:
  assumes "fst (setColumWidth_calls calls this) = None"
  shows "columnWidths (snd (setColumWidth_calls calls this)) =
     foldl (\<lambda>m (k, v). AList.update k v m) (columnWidths this)
       (concat (map (\<lambda>(a, w). stores a w) calls))"
  using assms
proof (induction calls arbitrary: this)
  case Nil
  then show ?case by simp
next
  case (Cons call calls)
  obtain a w where call: "call = (a, w)" by (cases call)
  obtain e this' where r: "setColumWidth a w this = (e, this')" by (cases "setColumWidth a w this")
  have e: "e = None"
    using Cons.prems call r by (cases e) simp_all
  have rest: "setColumWidth_calls (call # calls) this = setColumWidth_calls calls this'"
    using call r e by simp
  have "columnWidths this' = foldl (\<lambda>m (k, v). AList.update k v m) (columnWidths this) (stores a w)"
    using setColumWidth_stores [of a w this] r by simp
  then show ?case
    using Cons.IH [of this'] Cons.prems rest call by simp
qed

lemma map_of_stored:
  "map_of (foldl (\<lambda>m (k, v). AList.update k v m) widths ws) =
     map_of widths ++ map_of (rev ws)"
proof (induction ws arbitrary: widths)
  case Nil
  then show ?case by simp
next
  case (Cons p ws)
  obtain k v where p: "p = (k, v)" by (cases p)
  have "map_of (AList.update k v widths) = (map_of widths)(k \<mapsto> v)"
    by (rule update_conv')
  then show ?case
    using Cons.IH [of "AList.update k v widths"] p by (simp add: map_add_def fun_eq_iff split: option.splits)
qed

lemma last_write:
  assumes "ws = before @ (index, width) # after" and "index \<notin> fst ` set after"
  shows "(map_of widths ++ map_of (rev ws)) index = Some width"
proof -
  have "map_of (rev after) index = None"
    using assms(2) by (simp add: map_of_eq_None_iff)
  then show ?thesis
    using assms(1) by (simp add: map_add_def)
qed

text \<open>
  C8, as amended. For every sequence of \<open>setColumWidth\<close> calls that raises no
  error, the width recorded for an index is the last one stored for it, the pairs
  of a bulk call counting in list order; two single calls for column 0 leave the
  second width; and a call whose first argument is neither an array nor a number,
  or whose first argument is a number and whose second is not, changes nothing and
  raises no error.
\<close>

theorem setColumWidth_last_write:
  "(fst (setColumWidth_calls calls this) = None \<longrightarrow>
      concat (map (\<lambda>(a, w). stores a w) calls) = before @ (index, width) # after \<longrightarrow>
      index \<notin> fst ` set after \<longrightarrow>
      map_of (columnWidths (snd (setColumWidth_calls calls this))) index = Some width) \<and>
   map_of (columnWidths (snd (setColumWidth_calls [(Index 0, Width w1), (Index 0, Width w2)] this))) 0
      = Some w2 \<and>
   setColumWidth NoIndex w this = (None, this) \<and>
   setColumWidth (Index index) NoWidth this = (None, this)"
proof -
  have general: "fst (setColumWidth_calls calls this) = None \<longrightarrow>
      concat (map (\<lambda>(a, w). stores a w) calls) = before @ (index, width) # after \<longrightarrow>
      index \<notin> fst ` set after \<longrightarrow>
      map_of (columnWidths (snd (setColumWidth_calls calls this))) index = Some width"
  proof (intro impI)
    assume ok: "fst (setColumWidth_calls calls this) = None"
      and ws: "concat (map (\<lambda>(a, w). stores a w) calls) = before @ (index, width) # after"
      and later: "index \<notin> fst ` set after"
    have "map_of (columnWidths (snd (setColumWidth_calls calls this))) =
            map_of (columnWidths this) ++ map_of (rev (concat (map (\<lambda>(a, w). stores a w) calls)))"
      by (simp only: setColumWidth_calls_stores [OF ok] map_of_stored)
    then show "map_of (columnWidths (snd (setColumWidth_calls calls this))) index = Some width"
      using last_write [OF ws later, of "columnWidths this"] by simp
  qed
  have twice: "map_of (columnWidths (snd (setColumWidth_calls [(Index 0, Width w1), (Index 0, Width w2)] this))) 0
      = Some w2"
    by (simp add: update_conv')
  show ?thesis using general twice by simp
qed

theorem setColumWidth_last_write_witness:
  "columnWidths (snd (setColumWidth_calls
      [(Index 0, Width 15), (Sizes [Entry 1 8, Entry 0 20, Entry 1 9], NoWidth), (NoIndex, Width 7)]
      (new_Sheet 0 ''f'' :: (int, int) Sheet))) = [(0, 20), (1, 9)] \<and>
   map_of (columnWidths (snd (setColumWidth_calls
      [(Index 0, Width 15), (Sizes [Entry 1 8, Entry 0 20, Entry 1 9], NoWidth), (NoIndex, Width 7)]
      (new_Sheet 0 ''f'' :: (int, int) Sheet)))) 0 = Some 20"
proof -
  let ?calls = "[(Index 0, Width 15), (Sizes [Entry 1 8, Entry 0 20, Entry 1 9], NoWidth), (NoIndex, Width 7)]
    :: (int index_arg \<times> int width_arg) list"
  let ?sheet = "new_Sheet 0 ''f'' :: (int, int) Sheet"
  have run: "setColumWidth_calls ?calls ?sheet = (None, ?sheet\<lparr>columnWidths := [(0, 20), (1, 9)]\<rparr>)"
    by (simp add: new_Sheet_def)
  have ok: "fst (setColumWidth_calls ?calls ?sheet) = None"
    using run by simp
  have split: "concat (map (\<lambda>(a, w). stores a w) ?calls) = [(0, 15), (1, 8)] @ (0, 20) # [(1, 9)]"
    by simp
  have later: "(0::int) \<notin> fst ` set [(1::int, 9::int)]"
    by simp
  show ?thesis
    using setColumWidth_last_write [of ?calls ?sheet "[(0, 15), (1, 8)]" 0 20 "[(1, 9)]"] ok split later run
    by simp
qed

text \<open>
  C8 as stated fails for an array argument, which is not validated: the bulk call
  with the pair (0, 15) followed by an element that cannot be destructured raises
  a \<open>TypeError\<close>, and the map has changed.
\<close>

theorem setColumWidth_array_raises:
  "setColumWidth (Sizes [Entry 0 15, NotIterable]) NoWidth (new_Sheet 0 ''f'' :: (int, int) Sheet) =
     (Some TypeError, (new_Sheet 0 ''f'') \<lparr>columnWidths := [(0, 15)]\<rparr>)"
  by (simp add: new_Sheet_def)


section \<open>The worksheet encoder\<close>

lemma writeCells_acc:
  "writeCells rt row cols ci ss chunks =
     (chunks @ fst (writeCells rt row cols ci ss []), snd (writeCells rt row cols ci ss []))"
proof (induction cols arbitrary: ci ss chunks)
  case Nil
  then show ?case by simp
next
  case (Cons cell cols)
  obtain c ss' where w: "writeCell rt ss (getExcelColumn (int ci) @ row) cell = (c, ss')"
    by (cases "writeCell rt ss (getExcelColumn (int ci) @ row) cell")
  show ?case
    using Cons.IH [of "ci + 1" ss' "chunks @ [c]"] Cons.IH [of "ci + 1" ss' "[c]"] w
    by (simp add: Let_def)
qed

lemma writeRows_acc:
  "writeRows rt rs startIndex i ss chunks =
     (chunks @ fst (writeRows rt rs startIndex i ss []), snd (writeRows rt rs startIndex i ss []))"
proof (induction rs arbitrary: i ss chunks)
  case Nil
  then show ?case by simp
next
  case (Cons cols rs)
  let ?row = "nat_toString (startIndex + i + 1)"
  let ?open = "''<row r=\"'' @ ?row @ ''\">''"
  obtain cs ss' where w: "writeCells rt ?row cols 0 ss [] = (cs, ss')"
    by (cases "writeCells rt ?row cols 0 ss []")
  have w1: "writeCells rt ?row cols 0 ss (chunks @ [?open]) = (chunks @ [?open] @ cs, ss')"
    using writeCells_acc [of rt ?row cols 0 ss "chunks @ [?open]"] w by simp
  have w2: "writeCells rt ?row cols 0 ss [?open] = ([?open] @ cs, ss')"
    using writeCells_acc [of rt ?row cols 0 ss "[?open]"] w by simp
  show ?case
    using Cons.IH [of "i + 1" ss' "chunks @ [?open] @ cs @ [''</row>'']"]
      Cons.IH [of "i + 1" ss' "[?open] @ cs @ [''</row>'']"] w1 w2
    by (simp add: Let_def)
qed

lemma writeRows_shift:
  "startIndex + i = startIndex' + i' \<Longrightarrow>
   writeRows rt rs startIndex i ss chunks = writeRows rt rs startIndex' i' ss chunks"
proof (induction rs arbitrary: i i' ss chunks)
  case Nil
  then show ?case by simp
next
  case (Cons cols rs)
  have "startIndex + (i + 1) = startIndex' + (i' + 1)" using Cons.prems by simp
  from Cons.IH [OF this] show ?case using Cons.prems by (simp add: Let_def split_beta)
qed

lemma writeRows_append:
  "writeRows rt (xs @ ys) startIndex i ss chunks =
     (let (chunks', ss') = writeRows rt xs startIndex i ss chunks
      in writeRows rt ys startIndex (i + length xs) ss' chunks')"
proof (induction xs arbitrary: i ss chunks)
  case Nil
  then show ?case by simp
next
  case (Cons cols xs)
  show ?case by (simp add: Let_def split_beta Cons.IH)
qed

lemma writeChunk_Nil: "writeChunk rt ss [] startIndex = ([], ss)"
  by (simp add: writeChunk_def)

lemma writeChunk_append:
  "writeChunk rt ss (xs @ ys) startIndex =
     (let (text1, ss1) = writeChunk rt ss xs startIndex;
          (text2, ss2) = writeChunk rt ss1 ys (startIndex + length xs)
      in (text1 @ text2, ss2))"
proof -
  obtain c1 ss1 where a: "writeRows rt xs startIndex 0 ss [] = (c1, ss1)"
    by (cases "writeRows rt xs startIndex 0 ss []")
  obtain c2 ss2 where b: "writeRows rt ys (startIndex + length xs) 0 ss1 [] = (c2, ss2)"
    by (cases "writeRows rt ys (startIndex + length xs) 0 ss1 []")
  have "writeRows rt ys startIndex (0 + length xs) ss1 c1 =
          writeRows rt ys (startIndex + length xs) 0 ss1 c1"
    by (rule writeRows_shift) simp
  also have "\<dots> = (c1 @ c2, ss2)"
    using writeRows_acc [of rt ys "startIndex + length xs" 0 ss1 c1] b by simp
  finally have "writeRows rt (xs @ ys) startIndex 0 ss [] = (c1 @ c2, ss2)"
    using a by (simp add: writeRows_append)
  then show ?thesis using a b by (simp add: writeChunk_def)
qed


lemma chunk_loop_writes:
  assumes "0 < chunkSize"
  shows "\<exists>ws. chunk_loop chunkSize rt rs i ss out =
                 Some (out @ ws, snd (writeChunk rt ss (drop i rs) i)) \<and>
              concat ws = fst (writeChunk rt ss (drop i rs) i)"
  using assms
proof (induction chunkSize rt rs i ss out rule: chunk_loop.induct)
  case (1 chunkSize rt rs i ss out)
  show ?case
  proof (cases "i < length rs")
    case False
    then have "chunk_loop chunkSize rt rs i ss out = Some (out @ [], ss)"
      by (subst chunk_loop.simps) simp
    moreover have "writeChunk rt ss (drop i rs) i = ([], ss)"
      using False by (simp add: writeChunk_Nil)
    ultimately show ?thesis by (metis concat.simps(1) fst_conv snd_conv)
  next
    case True
    let ?chunk = "slice rs i (i + chunkSize)"
    let ?rest = "drop (i + chunkSize) rs"
    obtain content ss' where w: "writeChunk rt ss ?chunk i = (content, ss')"
      by (cases "writeChunk rt ss ?chunk i")
    have nz: "chunkSize \<noteq> 0" using "1.prems" by simp
    from "1.IH" [OF True nz refl w [symmetric] refl "1.prems"]
    obtain ws where
      r: "chunk_loop chunkSize rt rs (i + chunkSize) ss' (out @ [content]) =
            Some ((out @ [content]) @ ws, snd (writeChunk rt ss' ?rest (i + chunkSize)))"
      and c: "concat ws = fst (writeChunk rt ss' ?rest (i + chunkSize))"
      by blast
    have split: "drop i rs = ?chunk @ ?rest"
      by (simp add: slice_def add.commute [of i chunkSize] flip: drop_drop)
    have next_start: "writeChunk rt ss' ?rest (i + length ?chunk) = writeChunk rt ss' ?rest (i + chunkSize)"
    proof (cases "i + chunkSize \<le> length rs")
      case True
      then have "length ?chunk = chunkSize" by (simp add: slice_def)
      then show ?thesis by simp
    next
      case False
      then have "?rest = []" by simp
      then show ?thesis by (simp add: writeChunk_Nil)
    qed
    have whole: "writeChunk rt ss (drop i rs) i =
       (content @ fst (writeChunk rt ss' ?rest (i + chunkSize)),
        snd (writeChunk rt ss' ?rest (i + chunkSize)))"
      using writeChunk_append [of rt ss ?chunk ?rest i] w next_start
      by (simp add: split split_beta)
    have "chunk_loop chunkSize rt rs i ss out =
            chunk_loop chunkSize rt rs (i + chunkSize) ss' (out @ [content])"
      using True nz w by (subst chunk_loop.simps) simp
    then have "chunk_loop chunkSize rt rs i ss out =
            Some (out @ (content # ws), snd (writeChunk rt ss (drop i rs) i))"
      using r whole by simp
    moreover have "concat (content # ws) = fst (writeChunk rt ss (drop i rs) i)"
      using c whole by simp
    ultimately show ?thesis by blast
  qed
qed

lemma writeChunk_rows:
  "fst (writeChunk rt ss rs 0) =
     concat (map (\<lambda>k. fst (writeChunk rt (snd (writeChunk rt ss (take k rs) 0)) [rs ! k] k))
                 [0..<length rs])"
proof (induction rs rule: rev_induct)
  case Nil
  then show ?case by (simp add: writeChunk_Nil)
next
  case (snoc r rs)
  let ?F = "\<lambda>k. fst (writeChunk rt (snd (writeChunk rt ss (take k (rs @ [r])) 0)) [(rs @ [r]) ! k] k)"
  let ?G = "\<lambda>k. fst (writeChunk rt (snd (writeChunk rt ss (take k rs) 0)) [rs ! k] k)"
  have same: "map ?F [0..<length rs] = map ?G [0..<length rs]"
    by (rule map_cong) (simp_all add: nth_append)
  have last: "?F (length rs) = fst (writeChunk rt (snd (writeChunk rt ss rs 0)) [r] (length rs))"
    by simp
  have "concat (map ?F [0..<length (rs @ [r])]) = concat (map ?F [0..<length rs]) @ ?F (length rs)"
    by simp
  also have "\<dots> = concat (map ?G [0..<length rs]) @
                    fst (writeChunk rt (snd (writeChunk rt ss rs 0)) [r] (length rs))"
    by (simp only: same last)
  also have "\<dots> = fst (writeChunk rt ss rs 0) @
                    fst (writeChunk rt (snd (writeChunk rt ss rs 0)) [r] (length rs))"
    by (simp only: snoc.IH [symmetric])
  also have "\<dots> = fst (writeChunk rt ss (rs @ [r]) 0)"
    by (simp add: writeChunk_append split_beta)
  finally show ?case by (rule sym)
qed


lemma generateSheetXML_sized_document:
  assumes "0 < chunkSize"
  shows "\<exists>ws. generateSheetXML_sized chunkSize rt this ss =
                 Some (ws, snd (writeChunk rt ss (rows this) 0)) \<and>
              concat ws =
                sheet_header @
                (if columnWidths this = [] then []
                 else ''<cols>'' @ concat (map (mapper rt) (columnWidths this)) @ ''</cols>'') @
                ''<sheetData>'' @ fst (writeChunk rt ss (rows this) 0) @ ''</sheetData></worksheet>''"
proof -
  let ?out = "(if length (columnWidths this) > 0
               then [sheet_header] @ [''<cols>'' @ concat (map (mapper rt) (columnWidths this)) @ ''</cols>'']
               else [sheet_header]) @ [''<sheetData>'']"
  from chunk_loop_writes [OF assms, of rt "rows this" 0 ss ?out]
  obtain ws where
    r: "chunk_loop chunkSize rt (rows this) 0 ss ?out =
          Some (?out @ ws, snd (writeChunk rt ss (rows this) 0))"
    and c: "concat ws = fst (writeChunk rt ss (rows this) 0)"
    by auto
  have "generateSheetXML_sized chunkSize rt this ss =
          Some (?out @ ws @ [''</sheetData></worksheet>''], snd (writeChunk rt ss (rows this) 0))"
    using r by (simp add: generateSheetXML_sized_def Let_def)
  moreover have "concat (?out @ ws @ [''</sheetData></worksheet>'']) =
                sheet_header @
                (if columnWidths this = [] then []
                 else ''<cols>'' @ concat (map (mapper rt) (columnWidths this)) @ ''</cols>'') @
                ''<sheetData>'' @ fst (writeChunk rt ss (rows this) 0) @ ''</sheetData></worksheet>''"
    using c by simp
  ultimately show ?thesis by blast
qed

lemma generateSheetXML_document:
  "\<exists>ws. generateSheetXML rt this ss = Some (ws, snd (writeChunk rt ss (rows this) 0)) \<and>
         concat ws =
           sheet_header @
           (if columnWidths this = [] then []
            else ''<cols>'' @ concat (map (mapper rt) (columnWidths this)) @ ''</cols>'') @
           ''<sheetData>'' @ fst (writeChunk rt ss (rows this) 0) @ ''</sheetData></worksheet>''"
  using generateSheetXML_sized_document [of CHUNK_SIZE rt this ss]
  by (simp add: generateSheetXML_def CHUNK_SIZE_def)

text \<open>
  C4, as amended. Rows are list elements, so a batch is a list of whole rows. For
  every row list and every batch size above zero the batch loop returns, its
  writes joined are the text of encoding all rows as one batch from index 0, and
  it leaves the same string table; so the document is the same for every batch
  size, the source's 2500 among them. That text is, row by row, what encoding the
  row alone at its absolute index gives on the table as the rows before it left
  it: a row's content depends on its cells, its position and that table, not on
  the batches. A date cell's element holds the text of the converted date and
  nothing of the table or the batch.
\<close>

theorem batching_transparent:
  \<open>(0 < chunkSize \<longrightarrow>
      (\<exists>ws. chunk_loop chunkSize rt rs 0 ss out = Some (out @ ws, snd (writeChunk rt ss rs 0)) \<and>
            concat ws = fst (writeChunk rt ss rs 0))) \<and>
   (0 < chunkSize \<longrightarrow>
      (\<exists>ws. generateSheetXML_sized chunkSize rt this ss =
              Some (ws, snd (writeChunk rt ss (rows this) 0)) \<and>
            concat ws =
              sheet_header @
              (if columnWidths this = [] then []
               else ''<cols>'' @ concat (map (mapper rt) (columnWidths this)) @ ''</cols>'') @
              ''<sheetData>'' @ fst (writeChunk rt ss (rows this) 0) @ ''</sheetData></worksheet>'')) \<and>
   generateSheetXML rt this ss = generateSheetXML_sized 2500 rt this ss \<and>
   fst (writeChunk rt ss rs 0) =
     concat (map (\<lambda>k. fst (writeChunk rt (snd (writeChunk rt ss (take k rs) 0)) [rs ! k] k))
                 [0..<length rs]) \<and>
   writeCell rt ss ref (CDate d) =
     (''<c r="'' @ ref @ ''" s="1"><v>'' @ numberText rt (convertToExcelDate rt d) @ ''</v></c>'', ss)\<close>
proof -
  have loop: "0 < chunkSize \<longrightarrow>
      (\<exists>ws. chunk_loop chunkSize rt rs 0 ss out = Some (out @ ws, snd (writeChunk rt ss rs 0)) \<and>
            concat ws = fst (writeChunk rt ss rs 0))"
    using chunk_loop_writes [of chunkSize rt rs 0 ss out] by simp
  have doc: "0 < chunkSize \<longrightarrow>
      (\<exists>ws. generateSheetXML_sized chunkSize rt this ss =
              Some (ws, snd (writeChunk rt ss (rows this) 0)) \<and>
            concat ws =
              sheet_header @
              (if columnWidths this = [] then []
               else ''<cols>'' @ concat (map (mapper rt) (columnWidths this)) @ ''</cols>'') @
              ''<sheetData>'' @ fst (writeChunk rt ss (rows this) 0) @ ''</sheetData></worksheet>'')"
    using generateSheetXML_sized_document [of chunkSize rt this ss] by blast
  have fixed: "generateSheetXML rt this ss = generateSheetXML_sized 2500 rt this ss"
    by (simp add: generateSheetXML_def CHUNK_SIZE_def)
  have date: "writeCell rt ss ref (CDate d) =
     (''<c r=\"'' @ ref @ ''\" s=\"1\"><v>'' @ numberText rt (convertToExcelDate rt d) @ ''</v></c>'', ss)"
    by simp
  show ?thesis
    using loop doc fixed writeChunk_rows [of rt ss rs] date by blast
qed



lemma first_columns: "getExcelColumn 0 = ''A''" "getExcelColumn 1 = ''B''"
  by code_simp+

theorem batching_transparent_witness:
  \<open>map_option (concat \<circ> fst)
     (chunk_loop 2 utc_days [[CString ''a'', CDate 19753], [CNumber 7], [CString ''a'', CNull]] 0
        (new_SharedStrings ''t'') []) =
     Some (fst (writeChunk utc_days (new_SharedStrings ''t'')
                  [[CString ''a'', CDate 19753], [CNumber 7], [CString ''a'', CNull]] 0)) \<and>
   map_option fst
     (chunk_loop 2 utc_days [[CString ''a'', CDate 19753], [CNumber 7], [CString ''a'', CNull]] 0
        (new_SharedStrings ''t'') []) =
     Some [''<row r="1"><c r="A1" t="s"><v>0</v></c><c r="B1" s="1"><v>45322</v></c></row>'' @
           ''<row r="2"><c r="A2"><v>7</v></c></row>'',
           ''<row r="3"><c r="A3" t="s"><v>0</v></c><c r="B3"/></row>''] \<and>
   map_option fst
     (chunk_loop 1 utc_days [[CString ''a'', CDate 19753], [CNumber 7], [CString ''a'', CNull]] 0
        (new_SharedStrings ''t'') []) =
     Some [''<row r="1"><c r="A1" t="s"><v>0</v></c><c r="B1" s="1"><v>45322</v></c></row>'',
           ''<row r="2"><c r="A2"><v>7</v></c></row>'',
           ''<row r="3"><c r="A3" t="s"><v>0</v></c><c r="B3"/></row>'']\<close>
proof -
  let ?R = "[[CString ''a'', CDate 19753], [CNumber 7], [CString ''a'', CNull]] :: (int, int) cell list list"
  let ?T = "new_SharedStrings ''t''"
  have pos: "(0::nat) < 2" by simp
  from batching_transparent [of 2 utc_days ?R ?T "[]"] pos
  obtain ws where "chunk_loop 2 utc_days ?R 0 ?T [] = Some ([] @ ws, snd (writeChunk utc_days ?T ?R 0))"
    and "concat ws = fst (writeChunk utc_days ?T ?R 0)"
    by blast
  then have a: "map_option (concat \<circ> fst) (chunk_loop 2 utc_days ?R 0 ?T []) =
     Some (fst (writeChunk utc_days ?T ?R 0))"
    by simp
  have b: "map_option fst (chunk_loop 2 utc_days ?R 0 ?T []) =
     Some [''<row r=\"1\"><c r=\"A1\" t=\"s\"><v>0</v></c><c r=\"B1\" s=\"1\"><v>45322</v></c></row>'' @
           ''<row r=\"2\"><c r=\"A2\"><v>7</v></c></row>'',
           ''<row r=\"3\"><c r=\"A3\" t=\"s\"><v>0</v></c><c r=\"B3\"/></row>'']"
    by (simp add: chunk_loop.simps slice_def writeChunk_def utc_days_def new_SharedStrings_def
          add_def first_columns int_toString_def nat_toString.simps)
  have c: "map_option fst (chunk_loop 1 utc_days ?R 0 ?T []) =
     Some [''<row r=\"1\"><c r=\"A1\" t=\"s\"><v>0</v></c><c r=\"B1\" s=\"1\"><v>45322</v></c></row>'',
           ''<row r=\"2\"><c r=\"A2\"><v>7</v></c></row>'',
           ''<row r=\"3\"><c r=\"A3\" t=\"s\"><v>0</v></c><c r=\"B3\"/></row>'']"
    by (simp add: chunk_loop.simps slice_def writeChunk_def utc_days_def new_SharedStrings_def
          add_def first_columns int_toString_def nat_toString.simps)
  show ?thesis using a b c by blast
qed

text \<open>
  C4 as stated has a row's content depend on its cells and its position alone. A
  text cell's id also depends on the rows before it: the row \<open>["b"]\<close> at index 1
  gets the id 1 after a row that holds a string and the id 0 after a row that
  holds a number.
\<close>

theorem row_content_depends_on_table:
  \<open>fst (writeChunk utc_days (new_SharedStrings ''t'') [[CString ''a''], [CString ''b'']] 0) =
     ''<row r="1"><c r="A1" t="s"><v>0</v></c></row>'' @
     ''<row r="2"><c r="A2" t="s"><v>1</v></c></row>'' \<and>
   fst (writeChunk utc_days (new_SharedStrings ''t'') [[CNumber 5], [CString ''b'']] 0) =
     ''<row r="1"><c r="A1"><v>5</v></c></row>'' @
     ''<row r="2"><c r="A2" t="s"><v>0</v></c></row>''\<close>
  by (simp add: writeChunk_def utc_days_def new_SharedStrings_def add_def first_columns
        int_toString_def nat_toString.simps)

lemma writeCells_null:
  \<open>fst (writeCells rt row (before @ cell # after) ci ss chunks) ! (length chunks + length before) =
     fst (writeCell rt (snd (writeCells rt row before ci ss [])) (getExcelColumn (int (ci + length before)) @ row) cell)\<close>
proof (induction before arbitrary: ci ss chunks)
  case Nil
  obtain c ss' where w: "writeCell rt ss (getExcelColumn (int ci) @ row) cell = (c, ss')"
    by (cases "writeCell rt ss (getExcelColumn (int ci) @ row) cell")
  show ?case
    using writeCells_acc [of rt row after "ci + 1" ss' "chunks @ [c]"] w
    by (simp add: Let_def nth_append)
next
  case (Cons b before)
  obtain c ss' where w: "writeCell rt ss (getExcelColumn (int ci) @ row) b = (c, ss')"
    by (cases "writeCell rt ss (getExcelColumn (int ci) @ row) b")
  have "snd (writeCells rt row (b # before) ci ss []) = snd (writeCells rt row before (ci + 1) ss' [])"
    using w writeCells_acc [of rt row before "ci + 1" ss' "[c]"] by (simp add: Let_def)
  then show ?case
    using Cons.IH [of "ci + 1" ss' "chunks @ [c]"] w by (simp add: Let_def)
qed

text \<open>
  C1, as amended. The rows \<open>[["Name","Age"],["John",n]]\<close>, \<open>n\<close> a number, with a
  batch size of 1: the writes are the header, the opening of the data section, one
  row element per row, numbered 1 and 2, with the cells A1, B1 and A2, B2, and the
  closing tags. The three strings resolve to the table ids 0, 1 and 2; the number
  is written inline, as its text (\<open>25\<close> for the number 25). A \<open>null\<close> or missing
  cell gives an element with its reference and nothing else, wherever in the row
  it stands.
\<close>

theorem worksheet_example:
  \<open>map_option fst
     (generateSheetXML_sized 1 rt
        \<lparr>rows = [[CString ''Name'', CString ''Age''], [CString ''John'', CNumber n]],
         sharedStrings = ref, sheet_file = path, columnWidths = []\<rparr>
        (new_SharedStrings path')) =
     Some [sheet_header, ''<sheetData>'',
           ''<row r="1"><c r="A1" t="s"><v>0</v></c><c r="B1" t="s"><v>1</v></c></row>'',
           ''<row r="2"><c r="A2" t="s"><v>2</v></c><c r="B2"><v>'' @ numberText rt n @ ''</v></c></row>'',
           ''</sheetData></worksheet>''] \<and>
   map_option (strings \<circ> snd)
     (generateSheetXML_sized 1 rt
        \<lparr>rows = [[CString ''Name'', CString ''Age''], [CString ''John'', CNumber n]],
         sharedStrings = ref, sheet_file = path, columnWidths = []\<rparr>
        (new_SharedStrings path')) = Some [''Name'', ''Age'', ''John''] \<and>
   numberText utc_days 25 = ''25'' \<and>
   writeCell rt ss r CNull = (''<c r="'' @ r @ ''"/>'', ss) \<and>
   writeCell rt ss r CUndefined = (''<c r="'' @ r @ ''"/>'', ss) \<and>
   fst (writeCells rt row (before @ CNull # after) ci ss chunks) ! (length chunks + length before) =
     ''<c r="'' @ getExcelColumn (int (ci + length before)) @ row @ ''"/>'' \<and>
   fst (writeCells rt row (before @ CUndefined # after) ci ss chunks) ! (length chunks + length before) =
     ''<c r="'' @ getExcelColumn (int (ci + length before)) @ row @ ''"/>''\<close>
proof -
  let ?sheet = "\<lparr>rows = [[CString ''Name'', CString ''Age''], [CString ''John'', CNumber n]],
         sharedStrings = ref, sheet_file = path, columnWidths = []\<rparr>"
  have run: "map_option fst (generateSheetXML_sized 1 rt ?sheet (new_SharedStrings path')) =
     Some [sheet_header, ''<sheetData>'',
           ''<row r=\"1\"><c r=\"A1\" t=\"s\"><v>0</v></c><c r=\"B1\" t=\"s\"><v>1</v></c></row>'',
           ''<row r=\"2\"><c r=\"A2\" t=\"s\"><v>2</v></c><c r=\"B2\"><v>'' @ numberText rt n @ ''</v></c></row>'',
           ''</sheetData></worksheet>'']"
    by (simp add: generateSheetXML_sized_def chunk_loop.simps slice_def writeChunk_def
          new_SharedStrings_def add_def first_columns nat_toString.simps)
  have table: "map_option (strings \<circ> snd) (generateSheetXML_sized 1 rt ?sheet (new_SharedStrings path')) =
     Some [''Name'', ''Age'', ''John'']"
    by (simp add: generateSheetXML_sized_def chunk_loop.simps slice_def writeChunk_def
          new_SharedStrings_def add_def first_columns nat_toString.simps)
  have num: "numberText utc_days 25 = ''25''"
    by (simp add: utc_days_def int_toString_def nat_toString.simps)
  show ?thesis
    using run table num writeCells_null [of rt row before CNull after ci ss chunks]
      writeCells_null [of rt row before CUndefined after ci ss chunks]
    by simp
qed

text \<open>
  C1 as stated has the "Age" cell resolve to an inline numeric value. It is a
  string: its element carries the type marker and the table id 1.
\<close>

theorem worksheet_example_age_is_text:
  \<open>fst (writeChunk utc_days (new_SharedStrings ''t'')
          [[CString ''Name'', CString ''Age''], [CString ''John'', CNumber 25]] 0) =
     ''<row r="1"><c r="A1" t="s"><v>0</v></c><c r="B1" t="s"><v>1</v></c></row>'' @
     ''<row r="2"><c r="A2" t="s"><v>2</v></c><c r="B2"><v>25</v></c></row>'' \<and>
   fst (writeCell utc_days (snd (add (new_SharedStrings ''t'') ''Name'')) ''B1'' (CString ''Age'')) =
     ''<c r="B1" t="s"><v>1</v></c>'' \<and>
   \<not> (\<exists>v. fst (writeCell utc_days (snd (add (new_SharedStrings ''t'') ''Name'')) ''B1''
                   (CString ''Age'')) = ''<c r="B1"><v>'' @ v @ ''</v></c>'')\<close>
  by (simp add: writeChunk_def utc_days_def new_SharedStrings_def add_def first_columns
        int_toString_def nat_toString.simps)


section \<open>The package\<close>

lemma snd_add_all_Cons: "snd (add_all this (x # xs)) = snd (add_all (snd (add this x)) xs)"
  by (simp add: split_beta Let_def)

lemma snd_add_all_append: "snd (add_all this (xs @ ys)) = snd (add_all (snd (add_all this xs)) ys)"
  by (simp add: add_all_append split_beta Let_def)

lemma writeCell_table:
  "snd (writeCell rt ss ref cell) = (case cell_text cell of None \<Rightarrow> ss | Some str \<Rightarrow> snd (add ss str))"
  by (cases cell) (simp_all add: split_beta)

lemma writeCells_table:
  "snd (writeCells rt row cols ci ss chunks) = snd (add_all ss (List.map_filter cell_text cols))"
proof (induction cols arbitrary: ci ss chunks)
  case Nil
  then show ?case by (simp add: List.map_filter_simps)
next
  case (Cons cell cols)
  show ?case
    using writeCell_table [of rt ss "getExcelColumn (int ci) @ row" cell]
    by (cases "cell_text cell")
       (simp_all add: List.map_filter_simps split_beta Let_def Cons.IH)
qed

lemma writeRows_table:
  "snd (writeRows rt rs startIndex i ss chunks) =
     snd (add_all ss (concat (map (List.map_filter cell_text) rs)))"
proof (induction rs arbitrary: i ss chunks)
  case Nil
  then show ?case by simp
next
  case (Cons cols rs)
  show ?case
    by (simp add: split_beta Let_def Cons.IH writeCells_table snd_add_all_append)
qed

lemma writeChunk_table:
  "snd (writeChunk rt ss rs startIndex) =
     snd (add_all ss (concat (map (List.map_filter cell_text) rs)))"
  by (simp add: writeChunk_def split_beta writeRows_table)

lemma texts_empty:
  "(concat (map (List.map_filter cell_text) rs) = []) =
     (\<forall>row \<in> set rs. \<forall>cell \<in> set row. cell_text cell = None)"
proof -
  have "(List.map_filter cell_text row = []) = (\<forall>cell \<in> set row. cell_text cell = None)"
    for row :: "('a, 'b) cell list"
    by (induction row) (auto simp: List.map_filter_simps split: option.splits)
  then show ?thesis by simp
qed

lemma writeChunk_size:
  assumes "table_ok ss"
  shows "(0 < size_strings (snd (writeChunk rt ss rs startIndex))) =
           (0 < size_strings ss \<or> (\<exists>row \<in> set rs. \<exists>cell \<in> set row. cell_text cell \<noteq> None))"
proof -
  let ?texts = "concat (map (List.map_filter cell_text) rs)"
  obtain ids ss' where a: "add_all ss ?texts = (ids, ss')" by (cases "add_all ss ?texts")
  have "set (strings ss') = set (strings ss) \<union> set ?texts"
    using add_all_facts [OF assms a] by simp
  then have "(strings ss' = []) = (strings ss = [] \<and> ?texts = [])"
    by (metis Un_empty set_empty)
  then show ?thesis
    using a texts_empty [of rs] by (auto simp: writeChunk_table size_strings_def)
qed


lemma zip_names:
  "dirname ''xl/worksheets/sheet1.xml'' @ ''/'' @ basename ''xl/worksheets/sheet1.xml'' =
     ''xl/worksheets/sheet1.xml''"
  "dirname ''xl/sharedStrings.xml'' @ ''/'' @ basename ''xl/sharedStrings.xml'' =
     ''xl/sharedStrings.xml''"
  "dirname ''xl/worksheets/sheet1.xml'' @ CHR ''/'' # basename ''xl/worksheets/sheet1.xml'' =
     ''xl/worksheets/sheet1.xml''"
  "dirname ''xl/sharedStrings.xml'' @ CHR ''/'' # basename ''xl/sharedStrings.xml'' =
     ''xl/sharedStrings.xml''"
  by code_simp+

lemma mock_names:
  "fst ` set (zipfile (addMockFiles tpl (new_Package sheet ref))) =
     {''_rels/.rels'', ''xl/workbook.xml'', ''xl/_rels/workbook.xml.rels'', ''xl/styles.xml'',
      ''[Content_Types].xml''}"
  by (auto simp: addMockFiles_def pkg_add_def new_Package_def dom_update)

lemma mock_fields:
  "pkg_sheet (addMockFiles tpl (new_Package sheet ref)) = sheet"
  "pkg_sharedStrings (addMockFiles tpl (new_Package sheet ref)) = ref"
  "disposable (addMockFiles tpl (new_Package sheet ref)) = []"
  by (simp_all add: addMockFiles_def pkg_add_def new_Package_def)

lemma build_result:
  fixes sheet :: "('n, 'd) Sheet" and rt :: "('n, 'd) runtime" and store :: tables
  defines "ss' \<equiv> snd (writeChunk rt (store (sharedStrings sheet)) (rows sheet) 0)"
  defines "store1 \<equiv> store(sharedStrings sheet := ss')"
  shows "\<exists>ws this' fs' z.
     generateSheetXML rt sheet (store (sharedStrings sheet)) = Some (ws, ss') \<and>
     build tpl rt (new_Package sheet ref) store fs =
       Some ((if 0 < size_strings (store1 ref)
              then AList.update ''xl/sharedStrings.xml'' (concat (generateSharedStringsXML (store1 ref))) z
              else z), this', store1, fs') \<and>
     z = AList.update ''xl/worksheets/sheet1.xml'' (concat ws)
           (zipfile (addMockFiles tpl (new_Package sheet ref)))"
proof -
  let ?this1 = "addMockFiles tpl (new_Package sheet ref)"
  from generateSheetXML_document [of rt sheet "store (sharedStrings sheet)"]
  obtain ws where g: "generateSheetXML rt sheet (store (sharedStrings sheet)) = Some (ws, ss')"
    unfolding ss'_def by blast
  let ?fs1 = "fs(sheet_file sheet \<mapsto> concat ws)"
  let ?z = "AList.update ''xl/worksheets/sheet1.xml'' (concat ws) (zipfile ?this1)"
  let ?this2 = "?this1\<lparr>zipfile := ?z, disposable := disposable ?this1 @ [sheet_file sheet]\<rparr>"
  have gen: "sheet_generate rt (pkg_sheet ?this1) store fs = Some (sheet_file sheet, store1, ?fs1)"
    using g by (simp add: sheet_generate_def mock_fields store1_def)
  have add1: "addFile ''xl/worksheets/sheet1.xml'' (sheet_file sheet) ?this1 ?fs1 = Some ?this2"
    by (simp add: addFile_def zip_names Let_def)
  have ref2: "pkg_sharedStrings ?this2 = ref"
    by (simp add: mock_fields)
  show ?thesis
  proof (cases "0 < size_strings (store1 ref)")
    case False
    have "build tpl rt (new_Package sheet ref) store fs =
            Some (zipfile ?this2, ?this2, store1, dispose ?this2 ?fs1)"
      using False by (simp add: build_def Let_def gen add1 ref2 del: fun_upd_apply)
    then show ?thesis using g False by auto
  next
    case True
    let ?table = "store1 ref"
    let ?fs2 = "?fs1(strings_file ?table \<mapsto> concat (generateSharedStringsXML ?table))"
    let ?this3 = "?this2\<lparr>zipfile := AList.update ''xl/sharedStrings.xml''
                                    (concat (generateSharedStringsXML ?table)) (zipfile ?this2),
                        disposable := disposable ?this2 @ [strings_file ?table]\<rparr>"
    have sg: "strings_generate ?table ?fs1 = (strings_file ?table, ?fs2)"
      by (simp add: strings_generate_def)
    have add2: "addFile ''xl/sharedStrings.xml'' (strings_file ?table) ?this2 ?fs2 = Some ?this3"
      by (simp add: addFile_def zip_names Let_def)
    have "build tpl rt (new_Package sheet ref) store fs =
            Some (zipfile ?this3, ?this3, store1, dispose ?this3 ?fs2)"
      using True by (simp add: build_def Let_def gen add1 ref2 sg add2 del: fun_upd_apply)
    then show ?thesis using g True by auto
  qed
qed


lemma mock_name_list:
  "map fst (zipfile (addMockFiles tpl (new_Package sheet ref))) =
     [''_rels/.rels'', ''xl/workbook.xml'', ''xl/_rels/workbook.xml.rels'', ''xl/styles.xml'',
      ''[Content_Types].xml'']"
  by (simp add: addMockFiles_def pkg_add_def new_Package_def)

lemma build_names:
  fixes sheet :: "('n, 'd) Sheet" and rt :: "('n, 'd) runtime" and store :: tables
  shows "map_option (map fst \<circ> fst) (build tpl rt (new_Package sheet ref) store fs) =
     Some ([''_rels/.rels'', ''xl/workbook.xml'', ''xl/_rels/workbook.xml.rels'', ''xl/styles.xml'',
            ''[Content_Types].xml'', ''xl/worksheets/sheet1.xml''] @
           (if 0 < size_strings
                 ((store(sharedStrings sheet :=
                     snd (writeChunk rt (store (sharedStrings sheet)) (rows sheet) 0))) ref)
            then [''xl/sharedStrings.xml''] else []))"
proof -
  from build_result [of rt sheet store tpl ref fs]
  obtain ws this' fs' z where
    b: "build tpl rt (new_Package sheet ref) store fs =
       Some ((if 0 < size_strings
                 ((store(sharedStrings sheet :=
                     snd (writeChunk rt (store (sharedStrings sheet)) (rows sheet) 0))) ref)
              then AList.update ''xl/sharedStrings.xml''
                     (concat (generateSharedStringsXML
                        ((store(sharedStrings sheet :=
                            snd (writeChunk rt (store (sharedStrings sheet)) (rows sheet) 0))) ref))) z
              else z), this',
             store(sharedStrings sheet :=
                     snd (writeChunk rt (store (sharedStrings sheet)) (rows sheet) 0)), fs')"
    and z: "z = AList.update ''xl/worksheets/sheet1.xml'' (concat ws)
                  (zipfile (addMockFiles tpl (new_Package sheet ref)))"
    by auto
  have zn: "map fst z =
     [''_rels/.rels'', ''xl/workbook.xml'', ''xl/_rels/workbook.xml.rels'', ''xl/styles.xml'',
      ''[Content_Types].xml'', ''xl/worksheets/sheet1.xml'']"
    unfolding z by (simp add: update_keys mock_name_list)
  show ?thesis
    unfolding b using zn by (simp add: update_keys del: fun_upd_apply)
qed

lemma build_parts:
  fixes sheet :: "('n, 'd) Sheet" and rt :: "('n, 'd) runtime" and store :: tables
  defines "after \<equiv>
    store(sharedStrings sheet := snd (writeChunk rt (store (sharedStrings sheet)) (rows sheet) 0))"
  shows "\<exists>ws buffer this' fs'.
     generateSheetXML rt sheet (store (sharedStrings sheet)) = Some (ws, after (sharedStrings sheet)) \<and>
     build tpl rt (new_Package sheet ref) store fs = Some (buffer, this', after, fs') \<and>
     map_of buffer ''xl/worksheets/sheet1.xml'' = Some (concat ws) \<and>
     (''xl/sharedStrings.xml'' \<in> fst ` set buffer) = (0 < size_strings (after ref)) \<and>
     (0 < size_strings (after ref) \<longrightarrow>
        map_of buffer ''xl/sharedStrings.xml'' = Some (concat (generateSharedStringsXML (after ref)))) \<and>
     (ref = sharedStrings sheet \<longrightarrow> table_ok (store ref) \<longrightarrow>
        (''xl/sharedStrings.xml'' \<in> fst ` set buffer) =
          (0 < size_strings (store ref) \<or>
           (\<exists>row \<in> set (rows sheet). \<exists>cell \<in> set row. cell_text cell \<noteq> None)))"
proof -
  let ?mock = "zipfile (addMockFiles tpl (new_Package sheet ref))"
  from build_result [of rt sheet store tpl ref fs]
  obtain ws this' fs' z where
    g: "generateSheetXML rt sheet (store (sharedStrings sheet)) = Some (ws, after (sharedStrings sheet))"
    and b: "build tpl rt (new_Package sheet ref) store fs =
       Some ((if 0 < size_strings (after ref)
              then AList.update ''xl/sharedStrings.xml'' (concat (generateSharedStringsXML (after ref))) z
              else z), this', after, fs')"
    and z: "z = AList.update ''xl/worksheets/sheet1.xml'' (concat ws) ?mock"
    unfolding after_def by auto
  let ?buffer = "if 0 < size_strings (after ref)
              then AList.update ''xl/sharedStrings.xml'' (concat (generateSharedStringsXML (after ref))) z
              else z"
  have names_z: "fst ` set z = insert ''xl/worksheets/sheet1.xml'' (fst ` set ?mock)"
    using z by (simp add: dom_update)
  have not_in_z: "''xl/sharedStrings.xml'' \<notin> fst ` set z"
    unfolding names_z mock_names by simp
  have sheet_part: "map_of ?buffer ''xl/worksheets/sheet1.xml'' = Some (concat ws)"
    using z by (simp add: update_conv')
  have present: "(''xl/sharedStrings.xml'' \<in> fst ` set ?buffer) = (0 < size_strings (after ref))"
    using not_in_z by (simp add: dom_update)
  have content: "0 < size_strings (after ref) \<longrightarrow>
        map_of ?buffer ''xl/sharedStrings.xml'' = Some (concat (generateSharedStringsXML (after ref)))"
    by (simp add: update_conv')
  have shared: "ref = sharedStrings sheet \<longrightarrow> table_ok (store ref) \<longrightarrow>
        (''xl/sharedStrings.xml'' \<in> fst ` set ?buffer) =
          (0 < size_strings (store ref) \<or>
           (\<exists>row \<in> set (rows sheet). \<exists>cell \<in> set row. cell_text cell \<noteq> None))"
  proof (intro impI)
    assume r: "ref = sharedStrings sheet" and ok: "table_ok (store ref)"
    have "after ref = snd (writeChunk rt (store ref) (rows sheet) 0)"
      using r by (simp add: after_def)
    then show "(''xl/sharedStrings.xml'' \<in> fst ` set ?buffer) =
          (0 < size_strings (store ref) \<or>
           (\<exists>row \<in> set (rows sheet). \<exists>cell \<in> set row. cell_text cell \<noteq> None))"
      using present writeChunk_size [OF ok, of rt "rows sheet" 0] by simp
  qed
  show ?thesis
  proof (intro exI conjI)
    show "generateSheetXML rt sheet (store (sharedStrings sheet)) = Some (ws, after (sharedStrings sheet))"
      by (rule g)
    show "build tpl rt (new_Package sheet ref) store fs = Some (?buffer, this', after, fs')"
      by (rule b)
    show "map_of ?buffer ''xl/worksheets/sheet1.xml'' = Some (concat ws)"
      by (rule sheet_part)
    show "(''xl/sharedStrings.xml'' \<in> fst ` set ?buffer) = (0 < size_strings (after ref))"
      by (rule present)
    show "0 < size_strings (after ref) \<longrightarrow>
        map_of ?buffer ''xl/sharedStrings.xml'' = Some (concat (generateSharedStringsXML (after ref)))"
      by (rule content)
    show "ref = sharedStrings sheet \<longrightarrow> table_ok (store ref) \<longrightarrow>
        (''xl/sharedStrings.xml'' \<in> fst ` set ?buffer) =
          (0 < size_strings (store ref) \<or>
           (\<exists>row \<in> set (rows sheet). \<exists>cell \<in> set row. cell_text cell \<noteq> None))"
      by (rule shared)
  qed
qed


lemma build_fresh:
  fixes rt :: "('n, 'd) runtime" and rs :: "('n, 'd) cell list list"
  shows "\<exists>buffer this' tables' fs'.
     build tpl rt (new_Package (addRows rs (new_Sheet a path)) a)
       (store(a := new_SharedStrings path')) fs = Some (buffer, this', tables', fs') \<and>
     (''xl/sharedStrings.xml'' \<in> fst ` set buffer) =
       (\<exists>row \<in> set rs. \<exists>cell \<in> set row. cell_text cell \<noteq> None)"
proof -
  let ?sheet = "addRows rs (new_Sheet a path) :: ('n, 'd) Sheet"
  let ?store = "store(a := new_SharedStrings path')"
  have fields: "sharedStrings ?sheet = a" "rows ?sheet = rs"
    by (simp_all add: addRows_def new_Sheet_def)
  have ok: "table_ok (?store a)" by (simp add: table_ok_new)
  have empty: "\<not> 0 < size_strings (?store a)"
    by (simp add: size_strings_def new_SharedStrings_def)
  from build_parts [of rt ?sheet ?store tpl a fs]
  obtain buffer this' tables' fs' where
    b: "build tpl rt (new_Package ?sheet a) ?store fs = Some (buffer, this', tables', fs')"
    and p: "a = sharedStrings ?sheet \<longrightarrow> table_ok (?store a) \<longrightarrow>
        (''xl/sharedStrings.xml'' \<in> fst ` set buffer) =
          (0 < size_strings (?store a) \<or>
           (\<exists>row \<in> set (rows ?sheet). \<exists>cell \<in> set row. cell_text cell \<noteq> None))"
    by blast
  have "(''xl/sharedStrings.xml'' \<in> fst ` set buffer) =
       (\<exists>row \<in> set rs. \<exists>cell \<in> set row. cell_text cell \<noteq> None)"
    using p ok empty fields by simp
  then show ?thesis using b by blast
qed

text \<open>
  C3, as amended. \<open>build\<close> on a fresh package returns; the tables it leaves are
  those after the worksheet was generated, the sheet's table populated by its
  rows; the archive holds the worksheet part; it holds the string-table part
  exactly when the package's table, read after the worksheet's generation, has an
  entry, and the part is then the document of that table. Where the package was
  given the table the sheet writes to, the part is there exactly when the table
  had an entry before or some row holds a text cell. So where that table is the
  sheet's and was empty before (a fresh table, a sheet made on it, rows added,
  \<open>build\<close> on the two) the part is absent when no row holds a text cell and present
  as soon as one does.
\<close>

theorem build_string_table_part:
  fixes sheet :: "('n, 'd) Sheet" and rt :: "('n, 'd) runtime" and store :: tables
    and rs :: "('n, 'd) cell list list"
  defines "after \<equiv>
    store(sharedStrings sheet := snd (writeChunk rt (store (sharedStrings sheet)) (rows sheet) 0))"
  shows "(\<exists>ws buffer this' fs'.
     generateSheetXML rt sheet (store (sharedStrings sheet)) = Some (ws, after (sharedStrings sheet)) \<and>
     build tpl rt (new_Package sheet ref) store fs = Some (buffer, this', after, fs') \<and>
     map_of buffer ''xl/worksheets/sheet1.xml'' = Some (concat ws) \<and>
     (''xl/sharedStrings.xml'' \<in> fst ` set buffer) = (0 < size_strings (after ref)) \<and>
     (0 < size_strings (after ref) \<longrightarrow>
        map_of buffer ''xl/sharedStrings.xml'' = Some (concat (generateSharedStringsXML (after ref)))) \<and>
     (ref = sharedStrings sheet \<longrightarrow> table_ok (store ref) \<longrightarrow>
        (''xl/sharedStrings.xml'' \<in> fst ` set buffer) =
          (0 < size_strings (store ref) \<or>
           (\<exists>row \<in> set (rows sheet). \<exists>cell \<in> set row. cell_text cell \<noteq> None)))) \<and>
   (\<exists>buffer this' tables' fs'.
     build tpl rt (new_Package (addRows rs (new_Sheet a path)) a)
       (store(a := new_SharedStrings path')) fs = Some (buffer, this', tables', fs') \<and>
     (''xl/sharedStrings.xml'' \<in> fst ` set buffer) =
       (\<exists>row \<in> set rs. \<exists>cell \<in> set row. cell_text cell \<noteq> None))"
  unfolding after_def
  using build_parts [of rt sheet store tpl ref fs] build_fresh [of tpl rt rs a path store path' fs]
  by (rule conjI)

theorem build_string_table_part_witness:
  "(\<exists>buffer this' tables' fs'.
      build \<lparr>getBaseRels = ''a'', getWorkbookXML = ''b'', getWorkbookRels = ''c'', getContentTypes = ''d''\<rparr>
        utc_days
        (new_Package \<lparr>rows = [[CNumber 1, CString ''x'']], sharedStrings = 0,
                       sheet_file = ''sheet.tmp'', columnWidths = []\<rparr> 0)
        (\<lambda>address. new_SharedStrings ''strings.tmp'') Map.empty = Some (buffer, this', tables', fs') \<and>
      ''xl/sharedStrings.xml'' \<in> fst ` set buffer \<and>
      strings (tables' 0) = [''x'']) \<and>
   (\<exists>buffer this' tables' fs'.
      build \<lparr>getBaseRels = ''a'', getWorkbookXML = ''b'', getWorkbookRels = ''c'', getContentTypes = ''d''\<rparr>
        utc_days
        (new_Package \<lparr>rows = [[CNumber 1, CNull]], sharedStrings = 0,
                       sheet_file = ''sheet.tmp'', columnWidths = []\<rparr> 0)
        (\<lambda>address. new_SharedStrings ''strings.tmp'') Map.empty = Some (buffer, this', tables', fs') \<and>
      ''xl/sharedStrings.xml'' \<notin> fst ` set buffer \<and>
      strings (tables' 0) = [])"
proof -
  let ?tpl = "\<lparr>getBaseRels = ''a'', getWorkbookXML = ''b'', getWorkbookRels = ''c'', getContentTypes = ''d''\<rparr>"
  let ?store = "\<lambda>address :: nat. new_SharedStrings ''strings.tmp''"
  let ?with_text = "\<lparr>rows = [[CNumber 1, CString ''x'']], sharedStrings = 0,
                       sheet_file = ''sheet.tmp'', columnWidths = []\<rparr> :: (int, int) Sheet"
  let ?without = "\<lparr>rows = [[CNumber 1, CNull]], sharedStrings = 0,
                       sheet_file = ''sheet.tmp'', columnWidths = []\<rparr> :: (int, int) Sheet"
  have ok: "table_ok (?store 0)" by (rule table_ok_new)
  have empty: "\<not> 0 < size_strings (?store 0)"
    by (simp add: size_strings_def new_SharedStrings_def)
  have has_text: "\<exists>row \<in> set (rows ?with_text). \<exists>cell \<in> set row. cell_text cell \<noteq> None"
    by simp
  have none: "\<not> (\<exists>row \<in> set (rows ?without). \<exists>cell \<in> set row. cell_text cell \<noteq> None)"
    by simp
  have t1: "strings (snd (writeChunk utc_days (?store 0) (rows ?with_text) 0)) = [''x'']"
    by (simp add: writeChunk_table List.map_filter_simps new_SharedStrings_def add_def)
  have t2: "strings (snd (writeChunk utc_days (?store 0) (rows ?without) 0)) = []"
    by (simp add: writeChunk_table List.map_filter_simps new_SharedStrings_def)
  have first: "\<exists>buffer this' tables' fs'.
      build ?tpl utc_days (new_Package ?with_text 0) ?store Map.empty = Some (buffer, this', tables', fs') \<and>
      ''xl/sharedStrings.xml'' \<in> fst ` set buffer \<and> strings (tables' 0) = [''x'']"
  proof -
    let ?after = "?store(sharedStrings ?with_text :=
                    snd (writeChunk utc_days (?store (sharedStrings ?with_text)) (rows ?with_text) 0))"
    from build_string_table_part
      [where rt = utc_days and sheet = "?with_text" and store = "?store" and tpl = "?tpl"
         and ref = 0 and fs = Map.empty, THEN conjunct1]
    obtain buffer this' fs' where
      b: "build ?tpl utc_days (new_Package ?with_text 0) ?store Map.empty = Some (buffer, this', ?after, fs')"
      and p: "0 = sharedStrings ?with_text \<longrightarrow> table_ok (?store 0) \<longrightarrow>
        (''xl/sharedStrings.xml'' \<in> fst ` set buffer) =
          (0 < size_strings (?store 0) \<or>
           (\<exists>row \<in> set (rows ?with_text). \<exists>cell \<in> set row. cell_text cell \<noteq> None))"
      by blast
    have "''xl/sharedStrings.xml'' \<in> fst ` set buffer"
      using p ok has_text by simp
    moreover have "strings (?after 0) = [''x'']"
      using t1 by simp
    ultimately show ?thesis using b by blast
  qed
  have second: "\<exists>buffer this' tables' fs'.
      build ?tpl utc_days (new_Package ?without 0) ?store Map.empty = Some (buffer, this', tables', fs') \<and>
      ''xl/sharedStrings.xml'' \<notin> fst ` set buffer \<and> strings (tables' 0) = []"
  proof -
    let ?after = "?store(sharedStrings ?without :=
                    snd (writeChunk utc_days (?store (sharedStrings ?without)) (rows ?without) 0))"
    from build_string_table_part
      [where rt = utc_days and sheet = "?without" and store = "?store" and tpl = "?tpl"
         and ref = 0 and fs = Map.empty, THEN conjunct1]
    obtain buffer this' fs' where
      b: "build ?tpl utc_days (new_Package ?without 0) ?store Map.empty = Some (buffer, this', ?after, fs')"
      and p: "0 = sharedStrings ?without \<longrightarrow> table_ok (?store 0) \<longrightarrow>
        (''xl/sharedStrings.xml'' \<in> fst ` set buffer) =
          (0 < size_strings (?store 0) \<or>
           (\<exists>row \<in> set (rows ?without). \<exists>cell \<in> set row. cell_text cell \<noteq> None))"
      by blast
    have "''xl/sharedStrings.xml'' \<notin> fst ` set buffer"
      using p ok empty none by simp
    moreover have "strings (?after 0) = []"
      using t2 by simp
    ultimately show ?thesis using b by blast
  qed
  show ?thesis using first second by blast
qed

text \<open>
  C3 as stated ties the part to the rows' text cells with no proviso. A package
  given another table than the sheet's reads that other table: the row holds a
  text cell and the part is absent. A table that held an entry before the build
  gives the part though no row holds a text cell.
\<close>

theorem build_string_table_part_other_table:
  "map_option (map fst \<circ> fst)
     (build \<lparr>getBaseRels = ''a'', getWorkbookXML = ''b'', getWorkbookRels = ''c'', getContentTypes = ''d''\<rparr>
        utc_days
        (new_Package \<lparr>rows = [[CString ''x'']], sharedStrings = 0,
                       sheet_file = ''sheet.tmp'', columnWidths = []\<rparr> 1)
        (\<lambda>address. new_SharedStrings ''strings.tmp'') Map.empty) =
     Some [''_rels/.rels'', ''xl/workbook.xml'', ''xl/_rels/workbook.xml.rels'', ''xl/styles.xml'',
           ''[Content_Types].xml'', ''xl/worksheets/sheet1.xml''] \<and>
   map_option (map fst \<circ> fst)
     (build \<lparr>getBaseRels = ''a'', getWorkbookXML = ''b'', getWorkbookRels = ''c'', getContentTypes = ''d''\<rparr>
        utc_days
        (new_Package \<lparr>rows = [[CNumber 1]], sharedStrings = 0,
                       sheet_file = ''sheet.tmp'', columnWidths = []\<rparr> 0)
        (\<lambda>address. snd (add (new_SharedStrings ''strings.tmp'') ''y'')) Map.empty) =
     Some [''_rels/.rels'', ''xl/workbook.xml'', ''xl/_rels/workbook.xml.rels'', ''xl/styles.xml'',
           ''[Content_Types].xml'', ''xl/worksheets/sheet1.xml'', ''xl/sharedStrings.xml'']"
  by (simp add: build_names writeChunk_table List.map_filter_simps size_strings_def
        new_SharedStrings_def add_def)

end
